theory Spec2Isabelle
  imports Complex_Main "HOL-Library.Sublist" "HOL-Library.Char_ord" "HOL-Library.List_Lexorder"
    "HOL-Library.Multiset"
begin

section \<open>sort.js: the comparators, and Array.prototype.sort\<close>

definition SORT_A_B_EQUAL :: int where
  "SORT_A_B_EQUAL = 0"

definition SORT_A_FIRST :: int where
  "SORT_A_FIRST = - 1"

definition SORT_B_FIRST :: int where
  "SORT_B_FIRST = 1"

definition comparatorAscending :: "'a::linorder \<Rightarrow> 'a \<Rightarrow> int" where
  "comparatorAscending a b =
     (if a = b then SORT_A_B_EQUAL else if a < b then SORT_A_FIRST else SORT_B_FIRST)"

definition comparatorDescending :: "'a::linorder \<Rightarrow> 'a \<Rightarrow> int" where
  "comparatorDescending a b =
     (if a = b then SORT_A_B_EQUAL else if a > b then SORT_A_FIRST else SORT_B_FIRST)"

text \<open>
  \<open>Array.prototype.sort\<close> with a comparator, as ECMAScript 2019 specifies it: a stable
  sort. An element moves behind another one only when the comparator returns a positive
  number for the pair, so elements that compare as equal keep their order. The model is
  the insertion sort that inserts from the right.
\<close>

fun arrayInsert :: "('a \<Rightarrow> 'a \<Rightarrow> int) \<Rightarrow> 'a \<Rightarrow> 'a list \<Rightarrow> 'a list" where
  "arrayInsert cmp a [] = [a]"
| "arrayInsert cmp a (b # bs) = (if cmp a b > 0 then b # arrayInsert cmp a bs else a # b # bs)"

fun arraySort :: "('a \<Rightarrow> 'a \<Rightarrow> int) \<Rightarrow> 'a list \<Rightarrow> 'a list" where
  "arraySort cmp [] = []"
| "arraySort cmp (a # as) = arrayInsert cmp a (arraySort cmp as)"

section \<open>JavaScript objects used as dictionaries\<close>

text \<open>
  An object with string keys is an association list in insertion order: assigning to a
  key that exists keeps the key's position, assigning to a new key appends it, and
  \<open>delete\<close> removes the entry.
\<close>

type_synonym 'v obj = "(string \<times> 'v) list"

definition objGet :: "'v obj \<Rightarrow> string \<Rightarrow> 'v option" where
  "objGet obj k = map_of obj k"

definition objHas :: "'v obj \<Rightarrow> string \<Rightarrow> bool" where
  "objHas obj k = (k \<in> set (map fst obj))"

fun objSet :: "'v obj \<Rightarrow> string \<Rightarrow> 'v \<Rightarrow> 'v obj" where
  "objSet [] k v = [(k, v)]"
| "objSet ((k', v') # rest) k v = (if k' = k then (k, v) # rest else (k', v') # objSet rest k v)"

definition objDelete :: "'v obj \<Rightarrow> string \<Rightarrow> 'v obj" where
  "objDelete obj k = filter (\<lambda>kv. fst kv \<noteq> k) obj"

text \<open>
  \<open>Object.keys\<close> lists the keys that are canonical array indices first, in ascending
  numeric order, and the other keys after them in insertion order. Of the keys of the
  colour table, \<open>10\<close> .. \<open>19\<close>, \<open>20\<close> .. \<open>29\<close> and \<open>30\<close> .. \<open>39\<close> are array indices;
  \<open>00\<close> .. \<open>09\<close> have a leading zero and are not.
\<close>

definition isDigit :: "char \<Rightarrow> bool" where
  "isDigit c = (c \<in> set ''0123456789'')"

definition isArrayIndex :: "string \<Rightarrow> bool" where
  "isArrayIndex k = (k = ''0'' \<or> (k \<noteq> [] \<and> list_all isDigit k \<and> hd k \<noteq> CHR ''0''))"

definition digitVal :: "char \<Rightarrow> nat" where
  "digitVal c = length (takeWhile (\<lambda>d. d \<noteq> c) ''0123456789'')"

definition decimalVal :: "string \<Rightarrow> nat" where
  "decimalVal k = foldl (\<lambda>acc c. acc * 10 + digitVal c) 0 k"

definition objectKeys :: "'v obj \<Rightarrow> string list" where
  "objectKeys obj =
     sort_key decimalVal (filter isArrayIndex (map fst obj)) @
     filter (\<lambda>k. \<not> isArrayIndex k) (map fst obj)"

text \<open>
  The dictionaries of the pipeline are keyed by colour keys (\<open>#rrggbb\<close>) and palette keys
  (colour keys joined by commas, or the empty string): none is an array index, so for
  them \<open>Object.keys\<close> is the insertion order.
\<close>

definition hashKeys :: "'v obj \<Rightarrow> string list" where
  "hashKeys obj = map fst obj"

definition objectValues :: "'v obj \<Rightarrow> 'v list" where
  "objectValues obj = map snd obj"

section \<open>nesPalette.js: the hardware colour table\<close>

definition COLORS_PER_SUBPALETTE :: nat where
  "COLORS_PER_SUBPALETTE = 4"

definition SUBPALETTES_PER_IMAGE :: nat where
  "SUBPALETTES_PER_IMAGE = 4"

definition CANONICAL_BLACK :: string where
  "CANONICAL_BLACK = ''0f''"

definition nesPalette :: "string obj" where
  "nesPalette = [
    (''00'', ''#7c7c7c''), (''01'', ''#0923f8''), (''02'', ''#0417b9''), (''03'', ''#4430b9''),
    (''04'', ''#920f82''), (''05'', ''#a60424''), (''06'', ''#a6120d''), (''07'', ''#861508''),
    (''08'', ''#4f2f04''), (''09'', ''#0c770f''), (''0a'', ''#09670b''), (''0b'', ''#065707''),
    (''0c'', ''#034057''), (''0d'', ''#000000''), (''0e'', ''#000000''), (''0f'', ''#000000''),
    (''10'', ''#bcbcbc''), (''11'', ''#147cf5''), (''12'', ''#0f5ef4''), (''13'', ''#684df8''),
    (''14'', ''#d61eca''), (''15'', ''#e20e5a''), (''16'', ''#f53a1b''), (''17'', ''#e25c22''),
    (''18'', ''#ab7b19''), (''19'', ''#1ab61e''), (''1a'', ''#17a61a''), (''1b'', ''#17a749''),
    (''1c'', ''#128887''), (''1d'', ''#000000''), (''1e'', ''#000000''), (''1f'', ''#000000''),
    (''20'', ''#f8f8f8''), (''21'', ''#44bdfa''), (''22'', ''#6a8bf9''), (''23'', ''#987cf5''),
    (''24'', ''#f67df6''), (''25'', ''#f65b98''), (''26'', ''#f6785d''), (''27'', ''#fa9f4e''),
    (''28'', ''#f7b72a''), (''29'', ''#baf638''), (''2a'', ''#5dd65b''), (''2b'', ''#60f69b''),
    (''2c'', ''#27e7d8''), (''2d'', ''#787878''), (''2e'', ''#000000''), (''2f'', ''#000000''),
    (''30'', ''#fcfcfc''), (''31'', ''#a6e4fb''), (''32'', ''#b8b9f6''), (''33'', ''#d8baf6''),
    (''34'', ''#f7baf7''), (''35'', ''#f7a5c0''), (''36'', ''#efd0b2''), (''37'', ''#fbdfab''),
    (''38'', ''#f7d77e''), (''39'', ''#d9f680''), (''3a'', ''#baf7ba''), (''3b'', ''#baf7d9''),
    (''3c'', ''#2cfcfb''), (''3d'', ''#d8d8d8''), (''3e'', ''#000000''), (''3f'', ''#000000'')]"

text \<open>
  lodash's \<open>invert\<close> (an external library): it walks the keys of the object in
  \<open>Object.keys\<close> order and assigns \<open>result[value] = key\<close>, so a later key overwrites an
  earlier one with the same value, at the position of the first.
\<close>

definition invert :: "string obj \<Rightarrow> string obj" where
  "invert obj =
     foldl (\<lambda>result k. case objGet obj k of None \<Rightarrow> result | Some v \<Rightarrow> objSet result v k)
       [] (objectKeys obj)"

definition nesPaletteInverted :: "string obj" where
  "nesPaletteInverted =
     (case objGet nesPalette CANONICAL_BLACK of
        None \<Rightarrow> invert nesPalette
      | Some black \<Rightarrow> objSet (invert nesPalette) black CANONICAL_BLACK)"

subsection \<open>Colours in whatever format\<close>

text \<open>
  An array is an object with an identity: \<open>===\<close> and \<open>indexOf\<close> compare two arrays by
  reference, not by contents. No colour array is written to after its creation, so an
  array value is its reference together with its contents; a colour object with the
  properties \<open>r\<close>, \<open>red\<close>, \<open>g\<close>, \<open>green\<close>, \<open>b\<close>, \<open>blue\<close> likewise. The references name the
  places that create colour arrays: the slice that \<open>getLocalPalette\<close> cuts for the pixel
  at a byte offset (each call cuts fresh ones; the first component tells the calls
  apart), the array that \<open>normalizeColor\<close> builds for the background colour, arrays
  handed in by the caller, and temporaries that are never stored.
\<close>

datatype ref = PixelSlice nat nat | NormalizedBackground | Supplied nat | Temporary

datatype color =
    ColorArray ref "nat list"
  | ColorObject ref "nat option" "nat option" "nat option" "nat option" "nat option" "nat option"
  | ColorString string
  | ColorNumber int
  | ColorUndefined

text \<open>\<open>a === b\<close> on colour values.\<close>

fun strictEq :: "color \<Rightarrow> color \<Rightarrow> bool" where
  "strictEq (ColorArray r _) (ColorArray r' _) = (r = r')"
| "strictEq (ColorObject r _ _ _ _ _ _) (ColorObject r' _ _ _ _ _ _) = (r = r')"
| "strictEq (ColorString s) (ColorString s') = (s = s')"
| "strictEq (ColorNumber n) (ColorNumber n') = (n = n')"
| "strictEq ColorUndefined ColorUndefined = True"
| "strictEq _ _ = False"

text \<open>\<open>array.indexOf(v) >= 0\<close>.\<close>

definition arrayIncludes :: "color list \<Rightarrow> color \<Rightarrow> bool" where
  "arrayIncludes arr v = list_ex (\<lambda>a. strictEq a v) arr"

text \<open>Truthiness of a colour value (\<open>!v\<close>, \<open>v ? .. : ..\<close>).\<close>

fun truthy :: "color \<Rightarrow> bool" where
  "truthy (ColorString s) = (s \<noteq> [])"
| "truthy (ColorNumber n) = (n \<noteq> 0)"
| "truthy ColorUndefined = False"
| "truthy _ = True"

definition hexDigits :: string where
  "hexDigits = ''0123456789abcdef''"

definition isHexChar :: "char \<Rightarrow> bool" where
  "isHexChar c = (c \<in> set hexDigits)"

definition hexVal :: "char \<Rightarrow> nat" where
  "hexVal c = length (takeWhile (\<lambda>d. d \<noteq> c) hexDigits)"

text \<open>
  \<open>parseInt(s, 16)\<close> on a string of lowercase hexadecimal digits; the empty string
  gives \<open>NaN\<close>, here \<open>None\<close>. The value is exact; JavaScript rounds a number of
  more than 53 bits, which a colour of six digits never is.
\<close>

definition parseInt16 :: "string \<Rightarrow> nat option" where
  "parseInt16 s =
     (if takeWhile isHexChar s = [] then None
      else Some (foldl (\<lambda>acc c. acc * 16 + hexVal c) 0 (takeWhile isHexChar s)))"

definition toLowerCase :: "string \<Rightarrow> string" where
  "toLowerCase s =
     map (\<lambda>c. if 65 \<le> (of_char c :: nat) \<and> (of_char c :: nat) \<le> 90
              then char_of (of_char c + 32 :: nat) else c) s"

text \<open>
  \<open>(n >> 16) & 0xff\<close>, \<open>(n >> 8) & 0xff\<close> and \<open>n & 0xff\<close> of an integer: the conversion
  to 32 bits changes the number by a multiple of \<open>2 ^ 32\<close>, which the mask removes.
\<close>

definition numberChannels :: "int \<Rightarrow> nat list" where
  "numberChannels n = [nat ((n div 65536) mod 256), nat ((n div 256) mod 256), nat (n mod 256)]"

definition orZero :: "nat option \<Rightarrow> nat option \<Rightarrow> nat" where
  "orZero a b =
     (case a of Some v \<Rightarrow> if v \<noteq> 0 then v else (case b of Some w \<Rightarrow> w | None \<Rightarrow> 0)
      | None \<Rightarrow> (case b of Some w \<Rightarrow> w | None \<Rightarrow> 0))"

fun normalizeColor :: "color \<Rightarrow> nat list" where
  "normalizeColor (ColorArray _ cs) = cs"
| "normalizeColor (ColorObject _ r red g green b blue) = [orZero r red, orZero g green, orZero b blue]"
| "normalizeColor (ColorString s) =
     (let digits = filter isHexChar (toLowerCase s);
          digits6 = (if length digits = 3 then concat (map (\<lambda>v. [v, v]) digits) else digits)
      in case parseInt16 digits6 of
           None \<Rightarrow> numberChannels 0
         | Some n \<Rightarrow> numberChannels (int n))"
| "normalizeColor (ColorNumber n) = numberChannels n"
| "normalizeColor ColorUndefined = numberChannels 0"

definition normalizeDitherPalette :: "color list \<Rightarrow> nat list list" where
  "normalizeDitherPalette palette = map normalizeColor palette"

text \<open>
  \<open>rgb2hex\<close> comes from the external package color-functions. For channels in
  \<open>0 .. 255\<close>, the bytes of an image buffer and of a parsed hexadecimal colour, it is two
  lowercase hexadecimal digits per channel. A channel missing from a short array is
  rendered as zero; image buffers, whose length is a multiple of four, have none.
\<close>

definition hexByte :: "nat \<Rightarrow> string" where
  "hexByte n = [hexDigits ! (n div 16 mod 16), hexDigits ! (n mod 16)]"

definition rgb2hex :: "nat \<Rightarrow> nat \<Rightarrow> nat \<Rightarrow> string" where
  "rgb2hex r g b = hexByte r @ hexByte g @ hexByte b"

definition channel :: "nat list \<Rightarrow> nat \<Rightarrow> nat" where
  "channel cs i = (if i < length cs then cs ! i else 0)"

definition normalizeColorHex :: "color \<Rightarrow> string" where
  "normalizeColorHex anyColor =
     (let c = normalizeColor anyColor
      in CHR ''#'' # rgb2hex (channel c 0) (channel c 1) (channel c 2))"

text \<open>
  \<open>colorDistance\<close>, term by term as the source has it: the third term subtracts
  \<open>colorB[2]\<close> from itself. The result is a real number; the rounding of the
  floating-point square root is not modelled.
\<close>

definition colorDistance :: "color \<Rightarrow> color \<Rightarrow> real" where
  "colorDistance a b =
     (let colorA = normalizeColor a; colorB = normalizeColor b
      in sqrt (real_of_int (
           (int (channel colorA 0) - int (channel colorB 0)) ^ 2 +
           (int (channel colorA 1) - int (channel colorB 1)) ^ 2 +
           (int (channel colorB 2) - int (channel colorB 2)) ^ 2)))"

definition nesColors :: "string list" where
  "nesColors =
     arraySort (\<lambda>a b. comparatorAscending (a \<noteq> ''#000000'') (b \<noteq> ''#000000''))
       (objectKeys nesPaletteInverted)"

record colorDistanceEntry =
  cd_key :: string
  cd_distance :: real

text \<open>
  The function that \<open>memoize\<close> wraps. The table is not empty, so the sorted array of
  distances has a first element.
\<close>

definition nesColorMatchDistances :: "string \<Rightarrow> colorDistanceEntry list" where
  "nesColorMatchDistances hex =
     arraySort (\<lambda>a b. comparatorAscending (cd_distance a) (cd_distance b))
       (map (\<lambda>nesHex. \<lparr> cd_key = the (objGet nesPaletteInverted nesHex),
                        cd_distance = colorDistance (ColorString hex) (ColorString nesHex) \<rparr>)
            (objectKeys nesPaletteInverted))"

definition nesColorMatchFn :: "color \<Rightarrow> string" where
  "nesColorMatchFn findColor =
     (let hex = normalizeColorHex findColor
      in case objGet nesPaletteInverted hex of
           Some k \<Rightarrow> k
         | None \<Rightarrow> cd_key (hd (nesColorMatchDistances hex)))"

text \<open>
  lodash's \<open>memoize\<close>: the cache maps the argument to the result of the first call with
  it, and a call returns the cached result when there is one. The cache is the state
  that the calls pass on.
\<close>

type_synonym matchCache = "color \<rightharpoonup> string"

definition nesColorMatch :: "matchCache \<Rightarrow> color \<Rightarrow> string \<times> matchCache" where
  "nesColorMatch cache findColor =
     (case cache findColor of
        Some k \<Rightarrow> (k, cache)
      | None \<Rightarrow> (let k = nesColorMatchFn findColor in (k, cache(findColor \<mapsto> k))))"

fun nesColorMatchCalls :: "matchCache \<Rightarrow> color list \<Rightarrow> string list \<times> matchCache" where
  "nesColorMatchCalls cache [] = ([], cache)"
| "nesColorMatchCalls cache (c # cs) =
     (let (k, cache') = nesColorMatch cache c;
          (ks, cache'') = nesColorMatchCalls cache' cs
      in (k # ks, cache''))"

section \<open>index.js: image buffers\<close>

datatype error = Error string | TypeError

definition RGBA_BYTES :: nat where
  "RGBA_BYTES = 4"

definition rgbaOffset :: "nat \<Rightarrow> nat" where
  "rgbaOffset offset = offset * RGBA_BYTES"

definition colorKey :: "color \<Rightarrow> string" where
  "colorKey c = normalizeColorHex c"

fun join :: "string \<Rightarrow> string list \<Rightarrow> string" where
  "join sep [] = []"
| "join sep [s] = s"
| "join sep (s # t # rest) = s @ sep @ join sep (t # rest)"

definition paletteKey :: "color list \<Rightarrow> string" where
  "paletteKey palette = join '','' (arraySort comparatorAscending (map normalizeColorHex palette))"

text \<open>
  \<open>Array.prototype.sort\<close> moves the elements that are \<open>undefined\<close> behind all others
  without asking the comparator.
\<close>

definition arraySortColors :: "(color \<Rightarrow> color \<Rightarrow> int) \<Rightarrow> color list \<Rightarrow> color list" where
  "arraySortColors cmp arr =
     arraySort cmp (filter (\<lambda>c. c \<noteq> ColorUndefined) arr) @ filter (\<lambda>c. c = ColorUndefined) arr"

text \<open>
  \<open>comparatorAscending\<close> on two numbers of which either may be \<open>NaN\<close> (\<open>None\<close>): \<open>NaN\<close> is
  neither equal to nor less than anything.
\<close>

definition comparatorAscendingNumber :: "nat option \<Rightarrow> nat option \<Rightarrow> int" where
  "comparatorAscendingNumber a b =
     (case (a, b) of
        (Some m, Some n) \<Rightarrow> comparatorAscending m n
      | _ \<Rightarrow> SORT_B_FIRST)"

text \<open>
  The sorter calls the memoized \<open>nesColorMatch\<close>; a call returns what the wrapped
  function returns, so the model calls the wrapped function.
\<close>

definition createPaletteSorter :: "color \<Rightarrow> color \<Rightarrow> color \<Rightarrow> int" where
  "createPaletteSorter backgroundColor a b =
     (if strictEq a backgroundColor then SORT_A_FIRST
      else if strictEq b backgroundColor then SORT_B_FIRST
      else comparatorAscendingNumber (parseInt16 (nesColorMatchFn a)) (parseInt16 (nesColorMatchFn b)))"

text \<open>
  An image buffer: \<open>data\<close> holds four bytes per pixel, row by row. \<open>new ImageData(w, h)\<close>
  is filled with zeros. The operations on the byte array are those of a typed array:
  \<open>slice\<close> clamps its bounds to the length, and \<open>set\<close> overwrites from an offset (it would
  throw if the source did not fit; in \<open>getImageDataSubsection\<close> it always fits).
\<close>

record imageData =
  width :: nat
  height :: nat
  data :: "nat list"

definition newImageData :: "nat \<Rightarrow> nat \<Rightarrow> imageData" where
  "newImageData sw sh = \<lparr> width = sw, height = sh, data = replicate (sw * sh * RGBA_BYTES) 0 \<rparr>"

definition arraySlice :: "'a list \<Rightarrow> nat \<Rightarrow> nat \<Rightarrow> 'a list" where
  "arraySlice arr start end = take (end - start) (drop start arr)"

definition typedArraySet :: "nat list \<Rightarrow> nat list \<Rightarrow> nat \<Rightarrow> nat list" where
  "typedArraySet target source offset =
     take offset target @ source @ drop (offset + length source) target"

definition getImageDataSubsection :: "imageData \<Rightarrow> nat \<Rightarrow> nat \<Rightarrow> nat \<Rightarrow> nat \<Rightarrow> imageData" where
  "getImageDataSubsection imgData sx sy sw sh =
     foldl (\<lambda>subImgData y.
              let start = rgbaOffset (sx + (sy + y) * width imgData);
                  len = rgbaOffset sw;
                  offset = rgbaOffset (y * sw)
              in subImgData \<lparr> data :=
                   typedArraySet (data subImgData) (arraySlice (data imgData) start (start + len)) offset \<rparr>)
       (newImageData sw sh) [0 ..< sh]"

text \<open>The values of \<open>i\<close> in \<open>for (let i = 0; i < dataLength; i += RGBA_BYTES)\<close>.\<close>

definition pixelOffsets :: "nat \<Rightarrow> nat list" where
  "pixelOffsets dataLength = filter (\<lambda>i. i mod RGBA_BYTES = 0) [0 ..< dataLength]"

definition imageDataDistance :: "imageData \<Rightarrow> imageData \<Rightarrow> real" where
  "imageDataDistance imgDataA imgDataB =
     foldl (\<lambda>distance i.
              distance + colorDistance
                (ColorArray Temporary (arraySlice (data imgDataA) i (i + 3)))
                (ColorArray Temporary (arraySlice (data imgDataB) i (i + 3))))
       0 (pixelOffsets (length (data imgDataA)))"

section \<open>Tiles\<close>

record tile =
  tile_x :: nat
  tile_y :: nat
  tile_srcPosition :: "nat \<times> nat \<times> nat \<times> nat"
  tile_srcImgData :: imageData

text \<open>
  The fields \<open>x\<close>, \<open>y\<close>, \<open>srcPosition\<close> and \<open>srcImgData\<close> of a tile carry the prefix
  \<open>tile_\<close>. \<open>ceilDiv\<close> is \<open>Math.ceil(a / b)\<close> for a positive tile size \<open>b\<close>; a tile
  size of zero, with which the source divides by zero, is outside the model.
\<close>

definition ceilDiv :: "nat \<Rightarrow> nat \<Rightarrow> nat" where
  "ceilDiv a b = (a + b - 1) div b"

definition splitIntoTiles :: "imageData \<Rightarrow> nat \<Rightarrow> nat \<Rightarrow> tile list" where
  "splitIntoTiles imgData tileWidth tileHeight =
     (let tilesX = ceilDiv (width imgData) tileWidth;
          tilesY = ceilDiv (height imgData) tileHeight
      in concat (map (\<lambda>y. map (\<lambda>x.
           \<lparr> tile_x = x, tile_y = y,
             tile_srcPosition = (x * tileWidth, y * tileHeight, tileWidth, tileHeight),
             tile_srcImgData = getImageDataSubsection imgData (x * tileWidth) (y * tileHeight)
                            tileWidth tileHeight \<rparr>) [0 ..< tilesX]) [0 ..< tilesY]))"

section \<open>Local palettes and their subpalette options\<close>

record localColor =
  lc_key :: string
  lc_color :: color
  lc_pixelsUsing :: nat

text \<open>
  The first argument numbers the call: the colour arrays that the call slices out of
  the buffer are new objects. \<open>countPixel\<close> is the body of the loop over the pixels.
\<close>

definition countPixel :: "nat \<Rightarrow> imageData \<Rightarrow> localColor obj \<Rightarrow> nat \<Rightarrow> localColor obj" where
  "countPixel call imgData colorsUsedByKey i =
     (let color = ColorArray (PixelSlice call i) (arraySlice (data imgData) i (i + 3));
          key = colorKey color;
          colorUsed = (case objGet colorsUsedByKey key of
                         Some used \<Rightarrow> used
                       | None \<Rightarrow> \<lparr> lc_key = key, lc_color = color, lc_pixelsUsing = 0 \<rparr>)
      in objSet colorsUsedByKey key (colorUsed \<lparr> lc_pixelsUsing := lc_pixelsUsing colorUsed + 1 \<rparr>))"

definition getLocalPalette :: "nat \<Rightarrow> imageData \<Rightarrow> localColor list" where
  "getLocalPalette call imgData =
     (let colorsUsedByKey =
            foldl (countPixel call imgData) [] (pixelOffsets (length (data imgData)))
      in arraySort (\<lambda>a b. comparatorDescending (lc_pixelsUsing a) (lc_pixelsUsing b))
           (map (\<lambda>key. the (objGet colorsUsedByKey key)) (hashKeys colorsUsedByKey)))"

fun enumeratePaletteOptions :: "'a list \<Rightarrow> nat \<Rightarrow> 'a list list" where
  "enumeratePaletteOptions palette maxColors =
     (if maxColors = 0 then []
      else if maxColors = 1 then map (\<lambda>color. [color]) palette
      else if length palette \<le> maxColors then [palette]
      else concat (map (\<lambda>i. map (\<lambda>restColors. (palette ! i) # restColors)
                                (enumeratePaletteOptions (drop (i + 1) palette) (maxColors - 1)))
                       [0 ..< (length palette + 1) - maxColors]))"

declare enumeratePaletteOptions.simps [simp del]

text \<open>
  The specification's words for the enumerator: every \<open>k\<close>-combination of the palette,
  each in the order of the palette.
\<close>

fun combinations :: "nat \<Rightarrow> 'a list \<Rightarrow> 'a list list" where
  "combinations 0 xs = [[]]"
| "combinations (Suc k) [] = []"
| "combinations (Suc k) (x # xs) = map ((#) x) (combinations k xs) @ combinations (Suc k) xs"

section \<open>nesify: usage statistics, background colour and candidate subpalettes\<close>

text \<open>
  What the pipeline takes from outside: the options, the scaled source buffer, the
  canvas to read the first dithering pass back from (\<open>ctx.getImageData\<close>, given a
  source position), the dithering primitive, and the outcome of sorting with the random
  comparator (some rearrangement of the array). In the options, \<open>None\<close> is the default
  \<open>false\<close>.
\<close>

record ditherOptions =
  step :: nat
  algorithm :: string

record options =
  globalPalette :: "color list"
  backgroundColor :: "color option"
  customPalette :: "string option"
  tileQuantizationStep :: nat
  ditherAlgorithm :: string
  tileWidth :: nat
  tileHeight :: nat
  tileSampleWidth :: nat
  tileSampleHeight :: nat

record colorUsed =
  cu_key :: string
  cu_color :: color
  cu_tilesUsing :: nat
  cu_pixelsUsing :: nat

record subpalette =
  sp_key :: string
  sp_palette :: "color list"
  sp_tilesUsing :: nat

definition ditherImageData ::
  "(imageData \<Rightarrow> nat list list \<Rightarrow> ditherOptions \<Rightarrow> imageData) \<Rightarrow>
   imageData \<Rightarrow> color list \<Rightarrow> ditherOptions \<Rightarrow> imageData" where
  "ditherImageData ditherjs imgData palette opts =
     ditherjs \<lparr> width = width imgData, height = height imgData, data = data imgData \<rparr>
       (normalizeDitherPalette palette) opts"

text \<open>\<open>if (customPalette)\<close>, \<open>backgroundColor ? 3 : 4\<close>: the empty string is falsy.\<close>

definition customPaletteGiven :: "string option \<Rightarrow> bool" where
  "customPaletteGiven cp = (case cp of None \<Rightarrow> False | Some s \<Rightarrow> s \<noteq> [])"

definition backgroundTruthy :: "color option \<Rightarrow> bool" where
  "backgroundTruthy bg = (case bg of None \<Rightarrow> False | Some c \<Rightarrow> truthy c)"

text \<open>\<open>s.match(/(.{2})/g)\<close>: the consecutive pairs of characters, \<open>null\<close> when there is none.\<close>

fun pairs :: "string \<Rightarrow> string list" where
  "pairs (a # b # rest) = [a, b] # pairs rest"
| "pairs _ = []"

definition customPaletteColors :: "string \<Rightarrow> error + color list" where
  "customPaletteColors cp =
     (case pairs (filter isHexChar cp) of
        [] \<Rightarrow> Inl TypeError
      | keys \<Rightarrow> Inr (map (\<lambda>key. case objGet nesPalette key of
                                   Some hex \<Rightarrow> ColorString hex
                                 | None \<Rightarrow> ColorUndefined) keys))"

definition chunkOffsets :: "nat \<Rightarrow> nat \<Rightarrow> nat list" where
  "chunkOffsets len chunkSize = filter (\<lambda>i. i mod chunkSize = 0) [0 ..< len]"

text \<open>
  The custom-palette branch: the usage table of the listed colours, the subpalettes cut
  from the list in chunks, and the first colour as the shared background colour.
  \<open>customSubpalette\<close> is the body of the loop over the chunks.
\<close>

definition customSubpalette ::
  "color option \<Rightarrow> color list \<Rightarrow> nat \<Rightarrow> subpalette obj \<Rightarrow> nat \<Rightarrow> subpalette obj" where
  "customSubpalette bg colors chunkSize subpalettesByKey i =
     (let chunk = arraySlice colors i (i + chunkSize);
          palette = (case bg of
                       Some c \<Rightarrow> if truthy c then c # chunk else chunk
                     | None \<Rightarrow> chunk);
          key = paletteKey palette
      in objSet subpalettesByKey key \<lparr> sp_key = key, sp_palette = palette, sp_tilesUsing = 0 \<rparr>)"

definition processCustomPalette ::
  "color option \<Rightarrow> color list \<Rightarrow> colorUsed obj \<times> subpalette obj \<times> color" where
  "processCustomPalette bg colors =
     (let chunkSize = (if backgroundTruthy bg then 3 else 4);
          sharedBackgroundColor = (case colors of [] \<Rightarrow> ColorUndefined | c # _ \<Rightarrow> c);
          colorsUsedByKey =
            foldl (\<lambda>byKey color.
                     objSet byKey (colorKey color)
                       \<lparr> cu_key = colorKey color, cu_color = color,
                         cu_tilesUsing = 0, cu_pixelsUsing = 0 \<rparr>)
              [] colors;
          subpalettesByKey =
            foldl (customSubpalette bg colors chunkSize) [] (chunkOffsets (length colors) chunkSize)
      in (colorsUsedByKey, subpalettesByKey, sharedBackgroundColor))"

text \<open>
  The body of the loop over the sampling tiles: the tile's local palette and its
  subpalette options are added to the two tables.
\<close>

definition aggregateColors :: "colorUsed obj \<Rightarrow> localColor list \<Rightarrow> colorUsed obj" where
  "aggregateColors colorsUsedByKey localPalette =
     foldl (\<lambda>byKey paletteColor.
              let key = lc_key paletteColor;
                  used = (case objGet byKey key of
                            Some u \<Rightarrow> u
                          | None \<Rightarrow> \<lparr> cu_key = key, cu_color = lc_color paletteColor,
                                      cu_tilesUsing = 0, cu_pixelsUsing = 0 \<rparr>)
              in objSet byKey key
                   (used \<lparr> cu_tilesUsing := cu_tilesUsing used + 1,
                           cu_pixelsUsing := cu_pixelsUsing used + lc_pixelsUsing paletteColor \<rparr>))
       colorsUsedByKey localPalette"

definition aggregateOptions :: "subpalette obj \<Rightarrow> color list list \<Rightarrow> subpalette obj" where
  "aggregateOptions subpalettesByKey paletteOptions =
     foldl (\<lambda>byKey paletteOption.
              let key = paletteKey paletteOption;
                  sub = (case objGet byKey key of
                           Some s \<Rightarrow> s
                         | None \<Rightarrow> \<lparr> sp_key = key, sp_palette = paletteOption, sp_tilesUsing = 0 \<rparr>)
              in objSet byKey key (sub \<lparr> sp_tilesUsing := sp_tilesUsing sub + 1 \<rparr>))
       subpalettesByKey paletteOptions"

definition processTile ::
  "colorUsed obj \<times> subpalette obj \<Rightarrow> nat \<times> imageData \<Rightarrow> colorUsed obj \<times> subpalette obj" where
  "processTile tables numbered =
     (let localPalette = getLocalPalette (fst numbered) (snd numbered);
          palette = map lc_color localPalette;
          paletteOptions = enumeratePaletteOptions palette COLORS_PER_SUBPALETTE
      in (aggregateColors (fst tables) localPalette, aggregateOptions (snd tables) paletteOptions))"

definition processColorInformation ::
  "((nat \<times> nat \<times> nat \<times> nat) \<Rightarrow> imageData) \<Rightarrow> tile list \<Rightarrow> colorUsed obj \<times> subpalette obj" where
  "processColorInformation ctxGetImageData sampleTiles =
     foldl processTile ([], [])
       (zip [0 ..< length sampleTiles] (map (\<lambda>t. ctxGetImageData (tile_srcPosition t)) sampleTiles))"

text \<open>The ranking: position \<open>n\<close> of the result is the colour of rank \<open>n\<close>.\<close>

definition rankColors :: "colorUsed obj \<Rightarrow> colorUsed list" where
  "rankColors colorsUsedByKey =
     arraySort (\<lambda>a b. if comparatorDescending (cu_pixelsUsing a) (cu_pixelsUsing b) \<noteq> 0
                       then comparatorDescending (cu_pixelsUsing a) (cu_pixelsUsing b)
                       else comparatorDescending (cu_tilesUsing a) (cu_tilesUsing b))
       (map (\<lambda>key. the (objGet colorsUsedByKey key)) (hashKeys colorsUsedByKey))"

text \<open>
  \<open>normalizeColor\<close> as an array object: an array is returned as it is, anything else
  gives a new array.
\<close>

definition normalizedArray :: "color \<Rightarrow> color" where
  "normalizedArray c =
     (case c of
        ColorArray r cs \<Rightarrow> ColorArray r cs
      | _ \<Rightarrow> ColorArray NormalizedBackground (normalizeColor c))"

text \<open>
  Picking the background colour. The second argument is \<open>sharedBackgroundColor\<close> as
  the branches above left it: the first colour of the custom palette, or \<open>undefined\<close>.
  Reading \<open>colorsUsed[0].color\<close> of an empty ranking throws a TypeError.
\<close>

definition selectBackgroundColor :: "color option \<Rightarrow> color \<Rightarrow> colorUsed list \<Rightarrow> error + color" where
  "selectBackgroundColor bg sharedBackgroundColor colorsUsed =
     (case bg of
        Some c \<Rightarrow> Inr (normalizedArray c)
      | None \<Rightarrow>
          if \<not> truthy sharedBackgroundColor
          then (case colorsUsed of [] \<Rightarrow> Inl TypeError | first # _ \<Rightarrow> Inr (cu_color first))
          else Inr sharedBackgroundColor)"

text \<open>
  The background colour sanity check, one key at a time. The comparator of the sort
  reads the property \<open>color\<close> of two colour values, which none has: it compares
  \<open>undefined\<close> with \<open>undefined\<close>. A key of the snapshot is still in the table when its turn
  comes, since an entry is deleted only in its own turn.
\<close>

definition colorProperty :: "color \<Rightarrow> unit" where
  "colorProperty c = ()"

definition repairStep :: "color \<Rightarrow> subpalette obj \<Rightarrow> string \<Rightarrow> subpalette obj" where
  "repairStep sharedBackgroundColor subpalettesByKey key =
     (case objGet subpalettesByKey key of
        None \<Rightarrow> subpalettesByKey
      | Some sub \<Rightarrow>
          if length (sp_palette sub) < COLORS_PER_SUBPALETTE \<and>
             \<not> arrayIncludes (sp_palette sub) sharedBackgroundColor
          then
            (let repaired = sub \<lparr> sp_palette :=
                   arraySortColors (\<lambda>a b. comparatorAscending (colorProperty a) (colorProperty b))
                     (sp_palette sub @ [sharedBackgroundColor]) \<rparr>;
                 newKey = paletteKey (sp_palette repaired);
                 merged = (case objGet subpalettesByKey newKey of
                             Some existing \<Rightarrow>
                               objSet subpalettesByKey newKey
                                 (existing \<lparr> sp_tilesUsing :=
                                    sp_tilesUsing existing + sp_tilesUsing repaired \<rparr>)
                           | None \<Rightarrow> objSet subpalettesByKey newKey repaired)
             in objDelete merged key)
          else subpalettesByKey)"

definition repairBackground :: "color \<Rightarrow> subpalette obj \<Rightarrow> subpalette obj" where
  "repairBackground sharedBackgroundColor subpalettesByKey =
     foldl (repairStep sharedBackgroundColor) subpalettesByKey (hashKeys subpalettesByKey)"

definition hasBackgroundColor :: "color \<Rightarrow> subpalette \<Rightarrow> bool" where
  "hasBackgroundColor sharedBackgroundColor sub =
     foldl (\<lambda>has color. has \<or> normalizeColorHex sharedBackgroundColor = normalizeColorHex color)
       False (sp_palette sub)"

text \<open>
  From the tables to the pool of assignable subpalettes: background colour, repair
  (skipped for a custom palette), filter, the error for an empty result, and the
  truncation of the shuffled array.
\<close>

definition validSubpalettes :: "options \<Rightarrow> color \<Rightarrow> subpalette obj \<Rightarrow> subpalette list" where
  "validSubpalettes opts sharedBackgroundColor subpalettesByKey =
     (let repaired = (if \<not> customPaletteGiven (customPalette opts)
                      then repairBackground sharedBackgroundColor subpalettesByKey
                      else subpalettesByKey);
          subpalettes = map (\<lambda>key. the (objGet repaired key)) (hashKeys repaired)
      in filter (hasBackgroundColor sharedBackgroundColor) subpalettes)"

definition selectSubpalettes ::
  "(subpalette list \<Rightarrow> subpalette list) \<Rightarrow> options \<Rightarrow>
   colorUsed obj \<times> subpalette obj \<times> color \<Rightarrow> error + color \<times> subpalette list" where
  "selectSubpalettes shuffle opts tables =
     (case tables of (colorsUsedByKey, subpalettesByKey, shared) \<Rightarrow>
        (case selectBackgroundColor (backgroundColor opts) shared (rankColors colorsUsedByKey) of
           Inl e \<Rightarrow> Inl e
         | Inr sharedBackgroundColor \<Rightarrow>
             (let valid = validSubpalettes opts sharedBackgroundColor subpalettesByKey
              in if length valid = 0
                 then Inl (Error ''No color palettes have the background color!'')
                 else Inr (sharedBackgroundColor,
                           take (SUBPALETTES_PER_IMAGE * 8) (shuffle valid)))))"

definition collectTables ::
  "((nat \<times> nat \<times> nat \<times> nat) \<Rightarrow> imageData) \<Rightarrow> options \<Rightarrow> imageData \<Rightarrow>
   error + colorUsed obj \<times> subpalette obj \<times> color" where
  "collectTables ctxGetImageData opts srcImgData =
     (if customPaletteGiven (customPalette opts)
      then (case customPaletteColors (the (customPalette opts)) of
              Inl e \<Rightarrow> Inl e
            | Inr colors \<Rightarrow> Inr (processCustomPalette (backgroundColor opts) colors))
      else (case processColorInformation ctxGetImageData
                   (splitIntoTiles srcImgData (tileSampleWidth opts) (tileSampleHeight opts)) of
              (colorsUsedByKey, subpalettesByKey) \<Rightarrow>
                Inr (colorsUsedByKey, subpalettesByKey, ColorUndefined)))"

section \<open>nesify: assigning a subpalette to every tile\<close>

record tileImgDataOption =
  to_distance :: real
  to_index :: nat
  to_subpalette :: subpalette
  to_subpaletteImgData :: imageData

definition tileImgDataOptions ::
  "(imageData \<Rightarrow> nat list list \<Rightarrow> ditherOptions \<Rightarrow> imageData) \<Rightarrow> options \<Rightarrow>
   subpalette list \<Rightarrow> tile \<Rightarrow> tileImgDataOption list" where
  "tileImgDataOptions ditherjs opts subpalettes t =
     (let ditherOpts = \<lparr> step = tileQuantizationStep opts, algorithm = ditherAlgorithm opts \<rparr>;
          tileImgData = ditherImageData ditherjs (tile_srcImgData t) (globalPalette opts) ditherOpts
      in map (\<lambda>(i, sub).
                let subpaletteImgData = ditherImageData ditherjs (tile_srcImgData t) (sp_palette sub) ditherOpts
                in \<lparr> to_distance = imageDataDistance tileImgData subpaletteImgData,
                     to_index = i, to_subpalette = sub,
                     to_subpaletteImgData = subpaletteImgData \<rparr>)
           (zip [0 ..< length subpalettes] subpalettes))"

text \<open>
  One tile: the option in front after the sort by distance is taken (reading it from an
  empty array throws a TypeError), and the palette of the chosen subpalette is sorted in
  place, which the later tiles see.
\<close>

definition assignTile ::
  "(imageData \<Rightarrow> nat list list \<Rightarrow> ditherOptions \<Rightarrow> imageData) \<Rightarrow> options \<Rightarrow> color \<Rightarrow>
   subpalette list \<Rightarrow> tile \<Rightarrow> error + tileImgDataOption \<times> subpalette list" where
  "assignTile ditherjs opts sharedBackgroundColor subpalettes t =
     (case arraySort (\<lambda>a b. comparatorAscending (to_distance a) (to_distance b))
             (tileImgDataOptions ditherjs opts subpalettes t) of
        [] \<Rightarrow> Inl TypeError
      | best # _ \<Rightarrow>
          Inr (best,
               subpalettes[to_index best :=
                 (to_subpalette best) \<lparr> sp_palette :=
                    arraySortColors (createPaletteSorter sharedBackgroundColor)
                      (sp_palette (to_subpalette best)) \<rparr>]))"

fun assignTiles ::
  "(imageData \<Rightarrow> nat list list \<Rightarrow> ditherOptions \<Rightarrow> imageData) \<Rightarrow> options \<Rightarrow> color \<Rightarrow>
   subpalette list \<Rightarrow> tile list \<Rightarrow> error + (tile \<times> tileImgDataOption) list" where
  "assignTiles ditherjs opts sharedBackgroundColor subpalettes [] = Inr []"
| "assignTiles ditherjs opts sharedBackgroundColor subpalettes (t # ts) =
     (case assignTile ditherjs opts sharedBackgroundColor subpalettes t of
        Inl e \<Rightarrow> Inl e
      | Inr (best, subpalettes') \<Rightarrow>
          (case assignTiles ditherjs opts sharedBackgroundColor subpalettes' ts of
             Inl e \<Rightarrow> Inl e
           | Inr rest \<Rightarrow> Inr ((t, best) # rest)))"

definition nesify ::
  "((nat \<times> nat \<times> nat \<times> nat) \<Rightarrow> imageData) \<Rightarrow>
   (imageData \<Rightarrow> nat list list \<Rightarrow> ditherOptions \<Rightarrow> imageData) \<Rightarrow>
   (subpalette list \<Rightarrow> subpalette list) \<Rightarrow> options \<Rightarrow> imageData \<Rightarrow>
   error + (tile \<times> tileImgDataOption) list" where
  "nesify ctxGetImageData ditherjs shuffle opts srcImgData =
     (let tiles = splitIntoTiles srcImgData (tileWidth opts) (tileHeight opts)
      in case collectTables ctxGetImageData opts srcImgData of
           Inl e \<Rightarrow> Inl e
         | Inr tables \<Rightarrow>
             (case selectSubpalettes shuffle opts tables of
                Inl e \<Rightarrow> Inl e
              | Inr (sharedBackgroundColor, subpalettes) \<Rightarrow>
                  assignTiles ditherjs opts sharedBackgroundColor subpalettes tiles))"

section \<open>Invariants of the tables, and inputs for the examples\<close>

text \<open>Small image buffers for the examples.\<close>

definition pixels3 :: imageData where
  "pixels3 = \<lparr> width = 3, height = 1, data = [8, 0, 0, 255, 0, 0, 9, 255, 8, 0, 0, 255] \<rparr>"

definition blackPixel :: imageData where
  "blackPixel = \<lparr> width = 1, height = 1, data = [0, 0, 0, 255] \<rparr>"

definition bluePixel :: imageData where
  "bluePixel = \<lparr> width = 1, height = 1, data = [0, 0, 255, 255] \<rparr>"

text \<open>
  The four bytes of the pixel in column \<open>px\<close> of row \<open>py\<close>, a source position as a set
  of pixels, and the row that \<open>getImageDataSubsection\<close> cuts out of the source for row
  \<open>y\<close> of the subsection, with the body of its loop.
\<close>

definition pixelAt :: "imageData \<Rightarrow> nat \<Rightarrow> nat \<Rightarrow> nat list" where
  "pixelAt imgData px py =
     arraySlice (data imgData) (rgbaOffset (px + py * width imgData))
       (rgbaOffset (px + py * width imgData) + RGBA_BYTES)"

definition inRegion :: "nat \<times> nat \<times> nat \<times> nat \<Rightarrow> nat \<Rightarrow> nat \<Rightarrow> bool" where
  "inRegion region px py =
     (case region of (sx, sy, sw, sh) \<Rightarrow> sx \<le> px \<and> px < sx + sw \<and> sy \<le> py \<and> py < sy + sh)"

definition subsectionRow :: "imageData \<Rightarrow> nat \<Rightarrow> nat \<Rightarrow> nat \<Rightarrow> nat \<Rightarrow> nat list" where
  "subsectionRow imgData sx sy sw y =
     arraySlice (data imgData) (rgbaOffset (sx + (sy + y) * width imgData))
       (rgbaOffset (sx + (sy + y) * width imgData) + rgbaOffset sw)"

definition subsectionStep :: "imageData \<Rightarrow> nat \<Rightarrow> nat \<Rightarrow> nat \<Rightarrow> imageData \<Rightarrow> nat \<Rightarrow> imageData" where
  "subsectionStep imgData sx sy sw subImgData y =
     subImgData \<lparr> data := typedArraySet (data subImgData) (subsectionRow imgData sx sy sw y)
                               (rgbaOffset (y * sw)) \<rparr>"

text \<open>An image of three columns and two rows, its pixels numbered 1 to 6.\<close>

definition img32 :: imageData where
  "img32 = \<lparr> width = 3, height = 2,
             data = [1, 1, 1, 255, 2, 2, 2, 255, 3, 3, 3, 255,
                     4, 4, 4, 255, 5, 5, 5, 255, 6, 6, 6, 255] \<rparr>"

text \<open>
  A table has one entry per key, and the local palette's table files every record under
  the record's own colour key.
\<close>

definition keyedByColor :: "localColor obj \<Rightarrow> bool" where
  "keyedByColor byKey = (distinct (map fst byKey) \<and> list_all (\<lambda>kv. lc_key (snd kv) = fst kv) byKey)"

text \<open>
  The candidates that the sanity check leaves alone; the table of candidates files every
  subpalette under the key of its palette; and the tiles counted in a table.
\<close>

definition conforms :: "color \<Rightarrow> subpalette \<Rightarrow> bool" where
  "conforms sharedBackgroundColor sub =
     (COLORS_PER_SUBPALETTE \<le> length (sp_palette sub) \<or> arrayIncludes (sp_palette sub) sharedBackgroundColor)"

definition keyedByPalette :: "subpalette obj \<Rightarrow> bool" where
  "keyedByPalette byKey =
     (distinct (map fst byKey) \<and> list_all (\<lambda>kv. fst kv = paletteKey (sp_palette (snd kv))) byKey)"

definition totalTilesUsing :: "subpalette obj \<Rightarrow> nat" where
  "totalTilesUsing byKey = sum_list (map (\<lambda>kv. sp_tilesUsing (snd kv)) byKey)"

text \<open>What the check makes of a candidate: the background colour appended, the array sorted.\<close>

definition repairedSubpalette :: "color \<Rightarrow> subpalette \<Rightarrow> subpalette" where
  "repairedSubpalette bg sub =
     sub \<lparr> sp_palette :=
       arraySortColors (\<lambda>a b. comparatorAscending (colorProperty a) (colorProperty b))
         (sp_palette sub @ [bg]) \<rparr>"

text \<open>
  Example candidates: one of three colours without the background colour, one of four
  colours whose key is the key of the first after its repair, and one of two colours
  that holds the background colour by value in another array.
\<close>

definition bgEx :: color where
  "bgEx = ColorArray (PixelSlice 0 0) [1, 1, 1]"

definition palA :: "color list" where
  "palA = [ColorArray (PixelSlice 1 0) [2, 2, 2], ColorArray (PixelSlice 1 4) [3, 3, 3],
           ColorArray (PixelSlice 1 8) [4, 4, 4]]"

definition palB :: "color list" where
  "palB = [ColorArray (PixelSlice 2 0) [1, 1, 1], ColorArray (PixelSlice 2 4) [2, 2, 2],
           ColorArray (PixelSlice 2 8) [3, 3, 3], ColorArray (PixelSlice 2 12) [4, 4, 4]]"

definition subA :: subpalette where
  "subA = \<lparr> sp_key = paletteKey palA, sp_palette = palA, sp_tilesUsing = 2 \<rparr>"

definition subB :: subpalette where
  "subB = \<lparr> sp_key = paletteKey palB, sp_palette = palB, sp_tilesUsing = 5 \<rparr>"

definition exTable :: "subpalette obj" where
  "exTable = [(paletteKey palA, subA), (paletteKey palB, subB)]"

definition palC :: "color list" where
  "palC = [ColorArray (PixelSlice 1 0) [1, 1, 1], ColorArray (PixelSlice 1 4) [2, 2, 2]]"

definition exTable2 :: "subpalette obj" where
  "exTable2 = [(paletteKey palC, \<lparr> sp_key = paletteKey palC, sp_palette = palC, sp_tilesUsing = 1 \<rparr>)]"

text \<open>Every candidate of a table has at most four colours.\<close>

definition paletteWithin :: "subpalette obj \<Rightarrow> bool" where
  "paletteWithin byKey = list_all (\<lambda>kv. length (sp_palette (snd kv)) \<le> COLORS_PER_SUBPALETTE) byKey"

text \<open>
  Two runs with a custom palette: black and white with the first colour as background,
  and white alone with the number 0 (black) as the background override.
\<close>

definition optsCustom :: options where
  "optsCustom = \<lparr> globalPalette = [], backgroundColor = None,
     customPalette = Some ''0f30'', tileQuantizationStep = 1,
     ditherAlgorithm = ''ordered'', tileWidth = 8, tileHeight = 8,
     tileSampleWidth = 16, tileSampleHeight = 16 \<rparr>"

definition optsUnmet :: options where
  "optsUnmet = optsCustom \<lparr> backgroundColor := Some (ColorNumber 0), customPalette := Some ''30'' \<rparr>"

definition colorsCustom :: "color list" where
  "colorsCustom = [ColorString ''#000000'', ColorString ''#fcfcfc'']"

definition poolCustom :: "subpalette list" where
  "poolCustom = [\<lparr> sp_key = ''#000000,#fcfcfc'', sp_palette = colorsCustom, sp_tilesUsing = 0 \<rparr>]"

definition poolUnmet :: "subpalette list" where
  "poolUnmet = [\<lparr> sp_key = ''#fcfcfc'', sp_palette = [ColorString ''#fcfcfc''], sp_tilesUsing = 0 \<rparr>]"


text \<open>A cache of the memoized matcher is valid when it holds results of the wrapped function.\<close>

definition cacheValid :: "matchCache \<Rightarrow> bool" where
  "cacheValid cache = (\<forall>c k. cache c = Some k \<longrightarrow> k = nesColorMatchFn c)"












section \<open>Facts about the sort and the dictionaries\<close>

lemma mset_arrayInsert: "mset (arrayInsert cmp a bs) = add_mset a (mset bs)"
  by (induction bs) auto

lemma mset_arraySort: "mset (arraySort cmp as) = mset as"
  by (induction as) (auto simp: mset_arrayInsert)

lemma set_arraySort: "set (arraySort cmp as) = set as"
  by (metis mset_arraySort set_mset_mset)

lemma length_arraySort: "length (arraySort cmp as) = length as"
  by (metis mset_arraySort size_mset)

lemma arraySort_Nil_iff: "arraySort cmp as = [] \<longleftrightarrow> as = []"
  by (metis length_arraySort length_0_conv)

lemma fst_objSet:
  "map fst (objSet obj k v) = (if k \<in> set (map fst obj) then map fst obj else map fst obj @ [k])"
  by (induction obj) force+

lemma distinct_objSet: "distinct (map fst obj) \<Longrightarrow> distinct (map fst (objSet obj k v))"
  by (simp add: fst_objSet)

lemma objGet_objSet: "objGet (objSet obj k v) k' = (if k' = k then Some v else objGet obj k')"
  by (induction obj) (auto simp: objGet_def)

lemma sum_objSet:
  "sum_list (map (\<lambda>kv. f (snd kv)) (objSet obj k v)) + (case objGet obj k of Some u \<Rightarrow> f u | None \<Rightarrow> 0)
     = sum_list (map (\<lambda>kv. f (snd kv)) obj) + (f v :: nat)"
  by (induction obj) (auto simp: objGet_def)

lemma set_objSet: "set (objSet obj k v) \<subseteq> insert (k, v) (set obj)"
  by (induction obj) (auto split: if_splits)

lemma list_all_objSet: "list_all P obj \<Longrightarrow> P (k, v) \<Longrightarrow> list_all P (objSet obj k v)"
  by (induction obj) auto

lemma objGet_list_all: "list_all P obj \<Longrightarrow> objGet obj k = Some v \<Longrightarrow> P (k, v)"
  by (induction obj) (auto simp: objGet_def split: if_splits)

lemma values_by_key:
  "distinct (map fst obj) \<Longrightarrow> map (\<lambda>key. the (objGet obj key)) (hashKeys obj) = map snd obj"
  by (induction obj) (auto simp: objGet_def hashKeys_def image_iff)

lemma fst_objDelete: "map fst (objDelete obj k) = filter (\<lambda>k'. k' \<noteq> k) (map fst obj)"
  by (induction obj) (auto simp: objDelete_def)

lemma distinct_objDelete: "distinct (map fst obj) \<Longrightarrow> distinct (map fst (objDelete obj k))"
  by (simp add: fst_objDelete)


lemma list_all_objDelete: "list_all P obj \<Longrightarrow> list_all P (objDelete obj k)"
  by (simp add: objDelete_def list_all_iff)

lemma sum_objDelete:
  "distinct (map fst obj) \<Longrightarrow>
   sum_list (map (\<lambda>kv. f (snd kv)) (objDelete obj k)) + (case objGet obj k of Some u \<Rightarrow> f u | None \<Rightarrow> 0)
     = sum_list (map (\<lambda>kv. (f (snd kv) :: nat)) obj)"
proof (induction obj)
  case Nil
  then show ?case by (simp add: objDelete_def objGet_def)
next
  case (Cons a obj)
  obtain k' v' where a: "a = (k', v')" by (cases a)
  show ?case
  proof (cases "k' = k")
    case True
    with Cons(2) a have "\<forall>kv \<in> set obj. fst kv \<noteq> k" by force
    then have "objDelete obj k = obj"
      by (simp add: objDelete_def filter_id_conv)
    with True a show ?thesis
      by (simp add: objDelete_def objGet_def)
  next
    case False
    with Cons a show ?thesis
      by (simp add: objDelete_def objGet_def)
  qed
qed

lemma objGet_iff: "distinct (map fst obj) \<Longrightarrow> objGet obj k = Some v \<longleftrightarrow> (k, v) \<in> set obj"
  by (simp add: objGet_def)

lemma objGet_mem: "objGet obj k = Some v \<Longrightarrow> (k, v) \<in> set obj"
  by (simp add: objGet_def map_of_SomeD)

lemma strictEq_refl: "strictEq c c"
  by (cases c) auto


lemma set_arraySortColors: "set (arraySortColors cmp arr) = set arr"
  by (auto simp: arraySortColors_def set_arraySort)

lemma mset_arraySortColors: "mset (arraySortColors cmp arr) = mset arr"
proof -
  have "mset (arraySortColors cmp arr) =
          filter_mset (\<lambda>c. c \<noteq> ColorUndefined) (mset arr) + filter_mset (\<lambda>c. \<not> c \<noteq> ColorUndefined) (mset arr)"
    by (simp add: arraySortColors_def mset_arraySort)
  then show ?thesis by (simp only: multiset_partition[symmetric])
qed

lemma length_arraySortColors: "length (arraySortColors cmp arr) = length arr"
  by (metis mset_arraySortColors size_mset)


lemma arrayIncludes_iff: "arrayIncludes arr v \<longleftrightarrow> (\<exists>a \<in> set arr. strictEq a v)"
  by (simp add: arrayIncludes_def list_ex_iff)

lemma repaired_includes:
  "arrayIncludes (arraySortColors cmp (p @ [bg])) bg"
  by (auto simp: arrayIncludes_iff set_arraySortColors strictEq_refl)

lemma length_normalizeColorHex: "length (normalizeColorHex c) = 7"
  by (simp add: normalizeColorHex_def rgb2hex_def hexByte_def Let_def)

lemma length_join:
  "(\<And>s. s \<in> set xs \<Longrightarrow> length s = 7) \<Longrightarrow> length (join '','' xs) = 8 * length xs - 1"
  by (induction "'',''" xs rule: join.induct) auto

lemma length_paletteKey: "length (paletteKey p) = 8 * length p - 1"
proof -
  have "length (paletteKey p) = 8 * length (arraySort comparatorAscending (map normalizeColorHex p)) - 1"
    unfolding paletteKey_def
    by (rule length_join) (auto simp: set_arraySort length_normalizeColorHex)
  then show ?thesis by (simp add: length_arraySort)
qed

lemma paletteKey_longer: "length q = Suc (length p) \<Longrightarrow> paletteKey q \<noteq> paletteKey p"
proof
  assume a: "length q = Suc (length p)" and "paletteKey q = paletteKey p"
  then have "length (paletteKey q) = length (paletteKey p)" by simp
  with a show False by (simp add: length_paletteKey)
qed


lemma comparatorAscending_pos: "0 < comparatorAscending a b \<longleftrightarrow> b < a"
  by (auto simp: comparatorAscending_def SORT_A_B_EQUAL_def SORT_A_FIRST_def SORT_B_FIRST_def)

lemma hd_arrayInsert:
  "hd (arrayInsert cmp a bs) = (if bs \<noteq> [] \<and> 0 < cmp a (hd bs) then hd bs else a)"
  by (cases bs) auto

lemma arraySort_first_minimum:
  fixes f :: "'a \<Rightarrow> 'b::linorder"
  assumes "xs \<noteq> []"
  shows "\<exists>pre post. xs = pre @ hd (arraySort (\<lambda>a b. comparatorAscending (f a) (f b)) xs) # post \<and>
           (\<forall>x \<in> set pre. f (hd (arraySort (\<lambda>a b. comparatorAscending (f a) (f b)) xs)) < f x) \<and>
           (\<forall>x \<in> set post. f (hd (arraySort (\<lambda>a b. comparatorAscending (f a) (f b)) xs)) \<le> f x)"
  using assms
proof (induction xs)
  case Nil
  then show ?case by simp
next
  case (Cons a as)
  let ?cmp = "\<lambda>a b. comparatorAscending (f a) (f b)"
  show ?case
  proof (cases "as = []")
    case True
    have "[a] = [] @ a # []" by simp
    then show ?thesis
      using True by (auto intro!: exI[of _ "[]"])
  next
    case False
    let ?m = "hd (arraySort ?cmp as)"
    from Cons.IH[OF False] obtain pre post where as: "as = pre @ ?m # post"
      and pre: "\<forall>x \<in> set pre. f ?m < f x" and post: "\<forall>x \<in> set post. f ?m \<le> f x"
      by blast
    have ne: "arraySort ?cmp as \<noteq> []"
      using False by (simp add: arraySort_Nil_iff)
    have hd: "hd (arraySort ?cmp (a # as)) = (if f ?m < f a then ?m else a)"
      using ne by (simp add: hd_arrayInsert comparatorAscending_pos)
    show ?thesis
    proof (cases "f ?m < f a")
      case True
      have "a # as = (a # pre) @ ?m # post"
        using as by simp
      moreover have "\<forall>x \<in> set (a # pre). f ?m < f x"
        using True pre by simp
      ultimately show ?thesis
        using post True hd by (metis (no_types, lifting))
    next
      case False
      then have "\<forall>x \<in> set as. f a \<le> f x"
        using pre post as
        by (metis (no_types, lifting) Un_iff insert_iff le_less_linear less_imp_le list.set(2)
            order_trans set_append)
      moreover have "a # as = [] @ a # as"
        by simp
      ultimately show ?thesis
        using False hd by (metis (no_types, lifting) empty_iff list.set(1))
    qed
  qed
qed


section \<open>The subpalette enumerator\<close>

lemma combinations_short: "length xs < k \<Longrightarrow> combinations k xs = []"
  by (induction k xs rule: combinations.induct) auto

lemma combinations_full: "combinations (length xs) xs = [xs]"
  by (induction xs) (auto simp: combinations_short)

lemma combinations_one: "combinations (Suc 0) xs = map (\<lambda>c. [c]) xs"
  by (induction xs) auto

lemma length_combinations: "length (combinations k xs) = length xs choose k"
  by (induction k xs rule: combinations.induct) auto

lemma combinations_elem: "c \<in> set (combinations k xs) \<Longrightarrow> subseq c xs \<and> length c = k"
  by (induction k xs arbitrary: c rule: combinations.induct) (auto simp: subseq_Cons')

lemma distinct_combinations: "distinct xs \<Longrightarrow> distinct (combinations k xs)"
proof (induction k xs rule: combinations.induct)
  case (3 k x xs)
  have "\<And>c. c \<in> set (combinations (Suc k) xs) \<Longrightarrow> x \<notin> set c"
    using 3(3) by (auto dest!: combinations_elem dest: list_emb_set)
  then show ?case using 3 by (fastforce simp: distinct_map)
qed auto

text \<open>
  The combinations, by the position of their first colour: the shape of the
  enumerator's loop.
\<close>

lemma combinations_unroll:
  "combinations (Suc k) xs =
     concat (map (\<lambda>i. map ((#) (xs ! i)) (combinations k (drop (Suc i) xs))) [0 ..< length xs - k])"
proof (induction xs)
  case Nil
  then show ?case by simp
next
  case (Cons x xs)
  show ?case
  proof (cases "k \<le> length xs")
    case True
    then have "[0 ..< length (x # xs) - k] = 0 # map Suc [0 ..< length xs - k]"
      by (simp add: upt_conv_Cons map_Suc_upt Suc_diff_le del: upt_Suc)
    then show ?thesis using Cons by (simp add: comp_def)
  next
    case False
    then show ?thesis by (simp add: combinations_short)
  qed
qed

lemma enumerate_eq_combinations:
  "1 \<le> k \<Longrightarrow> k \<le> length p \<Longrightarrow> enumeratePaletteOptions p k = combinations k p"
proof (induction p k rule: enumeratePaletteOptions.induct)
  case (1 p k)
  show ?case
  proof (cases "k = 1")
    case True
    then show ?thesis by (simp add: enumeratePaletteOptions.simps combinations_one)
  next
    case k1: False
    show ?thesis
    proof (cases "length p \<le> k")
      case True
      with 1(3) have "k = length p" by simp
      with k1 1(2) show ?thesis by (auto simp add: enumeratePaletteOptions.simps combinations_full)
    next
      case False
      obtain k' where k': "k = Suc k'" "1 \<le> k'" using 1(2) k1 by (cases k) auto
      have ih: "enumeratePaletteOptions (drop (i + 1) p) (k - 1) = combinations (k - 1) (drop (i + 1) p)"
        if "i \<in> set [0 ..< length p + 1 - k]" for i
        using 1(1)[OF _ _ _ that] k1 False k' that by auto
      have "enumeratePaletteOptions p k =
          concat (map (\<lambda>i. map ((#) (p ! i)) (combinations k' (drop (Suc i) p))) [0 ..< length p - k'])"
        using False k1 k' ih
        by (subst enumeratePaletteOptions.simps) (auto intro!: arg_cong[where f=concat])
      then show ?thesis using k' by (simp add: combinations_unroll)
    qed
  qed
qed

lemma enumerate_short: "2 \<le> k \<Longrightarrow> length p < k \<Longrightarrow> enumeratePaletteOptions p k = [p]"
  by (subst enumeratePaletteOptions.simps) auto

text \<open>
  Claim C3, as amended. For a palette of \<open>n\<close> distinct colours and a target size \<open>k\<close> with
  \<open>1 \<le> k \<le> n\<close>, \<open>enumeratePaletteOptions\<close> produces the \<open>k\<close>-combinations of the palette:
  exactly \<open>C(n, k)\<close> options, pairwise distinct, each of \<open>k\<close> colours in the relative order
  of the palette. A palette of fewer than \<open>k\<close> colours gives the single full set when
  \<open>k\<close> is at least 2.
\<close>

theorem enumeratePaletteOptions_combinations:
  "(distinct p \<and> 1 \<le> k \<and> k \<le> length p \<longrightarrow>
      enumeratePaletteOptions p k = combinations k p \<and>
      length (enumeratePaletteOptions p k) = length p choose k \<and>
      distinct (enumeratePaletteOptions p k) \<and>
      (\<forall>c \<in> set (enumeratePaletteOptions p k). subseq c p \<and> length c = k)) \<and>
   (length p < k \<and> 2 \<le> k \<longrightarrow> enumeratePaletteOptions p k = [p])"
proof (intro conjI impI)
  assume "length p < k \<and> 2 \<le> k"
  then show "enumeratePaletteOptions p k = [p]"
    by (simp add: enumerate_short)
next
  assume h: "distinct p \<and> 1 \<le> k \<and> k \<le> length p"
  then show eq: "enumeratePaletteOptions p k = combinations k p"
    by (simp add: enumerate_eq_combinations)
  show "length (enumeratePaletteOptions p k) = length p choose k"
    by (simp add: eq length_combinations)
  show "distinct (enumeratePaletteOptions p k)"
    using h by (simp add: eq distinct_combinations)
  show "\<forall>c \<in> set (enumeratePaletteOptions p k). subseq c p \<and> length c = k"
    by (simp add: eq combinations_elem)
qed

theorem enumeratePaletteOptions_combinations_witness:
  "distinct [1, 2, 3, 4, 5 :: nat] \<and> (1 :: nat) \<le> 4 \<and> 4 \<le> length [1, 2, 3, 4, 5 :: nat] \<and>
   length (enumeratePaletteOptions [1, 2, 3, 4, 5 :: nat] 4) = 5 \<and>
   distinct (enumeratePaletteOptions [1, 2, 3, 4, 5 :: nat] 4) \<and>
   list_all (\<lambda>c. subseq c [1, 2, 3, 4, 5] \<and> length c = 4) (enumeratePaletteOptions [1, 2, 3, 4, 5 :: nat] 4) \<and>
   length [1, 2 :: nat] < 4 \<and> enumeratePaletteOptions [1, 2 :: nat] 4 = [[1, 2]]"
proof -
  have h: "distinct [1, 2, 3, 4, 5 :: nat] \<and> (1 :: nat) \<le> 4 \<and> 4 \<le> length [1, 2, 3, 4, 5 :: nat]"
    by simp
  have h': "length [1, 2 :: nat] < 4 \<and> (2 :: nat) \<le> 4"
    by simp
  have c: "length [1, 2, 3, 4, 5 :: nat] choose 4 = 5"
    by (simp add: eval_nat_numeral binomial_Suc_Suc)
  note t = enumeratePaletteOptions_combinations[of "[1, 2, 3, 4, 5 :: nat]" 4, THEN conjunct1, THEN mp, OF h]
  note t' = enumeratePaletteOptions_combinations[of "[1, 2 :: nat]" 4, THEN conjunct2, THEN mp, OF h']
  have "length (enumeratePaletteOptions [1, 2, 3, 4, 5 :: nat] 4) = 5"
    using t c by metis
  moreover have "distinct (enumeratePaletteOptions [1, 2, 3, 4, 5 :: nat] 4)"
    using t by blast
  moreover have "list_all (\<lambda>c. subseq c [1, 2, 3, 4, 5] \<and> length c = 4)
                   (enumeratePaletteOptions [1, 2, 3, 4, 5 :: nat] 4)"
    unfolding list_all_iff using t by blast
  ultimately show ?thesis
    using h h' t' by blast
qed

text \<open>
  An empty palette with the target size 1 has fewer colours than the target, and the
  enumerator produces no option at all, not the single full (empty) set.
\<close>

theorem enumeratePaletteOptions_empty_counterexample:
  "length ([] :: nat list) < 1 \<and> enumeratePaletteOptions ([] :: nat list) 1 = [] \<and>
   enumeratePaletteOptions ([] :: nat list) 1 \<noteq> [[]]"
  by (simp add: enumeratePaletteOptions.simps)

section \<open>The local palette\<close>

lemma length_pixelOffsets: "length (pixelOffsets n) = (n + 3) div 4"
  by (induction n) (auto simp: pixelOffsets_def RGBA_BYTES_def; presburger)+

lemma countPixel_keyed: "keyedByColor byKey \<Longrightarrow> keyedByColor (countPixel call imgData byKey i)"
  unfolding keyedByColor_def countPixel_def Let_def
  by (auto intro!: list_all_objSet distinct_objSet dest: objGet_list_all split: option.splits)

lemma countPixel_sum:
  "sum_list (map (\<lambda>kv. lc_pixelsUsing (snd kv)) (countPixel call imgData byKey i))
     = sum_list (map (\<lambda>kv. lc_pixelsUsing (snd kv)) byKey) + 1"
proof -
  define k where "k = colorKey (ColorArray (PixelSlice call i) (arraySlice (data imgData) i (i + 3)))"
  show ?thesis
  proof (cases "objGet byKey k")
    case None
    then show ?thesis
      using sum_objSet[of lc_pixelsUsing byKey k
          "\<lparr> lc_key = k, lc_color = ColorArray (PixelSlice call i) (arraySlice (data imgData) i (i + 3)),
             lc_pixelsUsing = 0 + 1 \<rparr>"]
      by (simp add: countPixel_def Let_def k_def)
  next
    case (Some used)
    then show ?thesis
      using sum_objSet[of lc_pixelsUsing byKey k "used \<lparr> lc_pixelsUsing := lc_pixelsUsing used + 1 \<rparr>"]
      by (simp add: countPixel_def Let_def k_def)
  qed
qed

lemma getLocalPalette_fold:
  "keyedByColor byKey \<Longrightarrow>
   keyedByColor (foldl (countPixel call imgData) byKey offsets) \<and>
   sum_list (map (\<lambda>kv. lc_pixelsUsing (snd kv)) (foldl (countPixel call imgData) byKey offsets))
     = sum_list (map (\<lambda>kv. lc_pixelsUsing (snd kv)) byKey) + length offsets"
  by (induction offsets arbitrary: byKey) (simp_all add: countPixel_keyed countPixel_sum)

lemma getLocalPalette_unfold:
  "getLocalPalette call imgData =
     arraySort (\<lambda>a b. comparatorDescending (lc_pixelsUsing a) (lc_pixelsUsing b))
       (map snd (foldl (countPixel call imgData) [] (pixelOffsets (length (data imgData)))))"
proof -
  have "keyedByColor (foldl (countPixel call imgData) [] (pixelOffsets (length (data imgData))))"
    using getLocalPalette_fold[of "[]"] by (simp add: keyedByColor_def)
  then have "distinct (map fst (foldl (countPixel call imgData) [] (pixelOffsets (length (data imgData)))))"
    by (simp add: keyedByColor_def)
  from values_by_key[OF this] show ?thesis
    by (simp add: getLocalPalette_def Let_def)
qed

text \<open>
  Claim C10. For an image buffer (four bytes per pixel), the records that
  \<open>getLocalPalette\<close> returns have pairwise distinct colour keys, and their \<open>pixelsUsing\<close>
  counts add up to the number of pixels: the length of the data divided by four.
\<close>

theorem getLocalPalette_counts_every_pixel:
  assumes "RGBA_BYTES dvd length (data imgData)"
  shows "distinct (map lc_key (getLocalPalette call imgData)) \<and>
         sum_list (map lc_pixelsUsing (getLocalPalette call imgData)) = length (data imgData) div RGBA_BYTES"
proof -
  let ?byKey = "foldl (countPixel call imgData) [] (pixelOffsets (length (data imgData)))"
  let ?sorted = "getLocalPalette call imgData"
  have inv: "keyedByColor ?byKey"
    and total: "sum_list (map (\<lambda>kv. lc_pixelsUsing (snd kv)) ?byKey) = length (pixelOffsets (length (data imgData)))"
    using getLocalPalette_fold[of "[]" call imgData "pixelOffsets (length (data imgData))"]
    by (simp_all add: keyedByColor_def)
  have perm: "mset ?sorted = mset (map snd ?byKey)"
    by (simp add: getLocalPalette_unfold mset_arraySort)
  have keys: "map lc_key (map snd ?byKey) = map fst ?byKey"
    using inv by (auto simp: keyedByColor_def list_all_iff)
  have "mset (map lc_key ?sorted) = mset (map fst ?byKey)"
    using perm keys by (metis mset_map)
  moreover have "distinct (map fst ?byKey)"
    using inv by (simp add: keyedByColor_def)
  ultimately have d: "distinct (map lc_key ?sorted)"
    by (metis mset_eq_imp_distinct_iff)
  have "sum_list (map lc_pixelsUsing ?sorted) = sum_list (map lc_pixelsUsing (map snd ?byKey))"
    using perm by (metis mset_map sum_mset_sum_list)
  also have "\<dots> = length (pixelOffsets (length (data imgData)))"
    using total by (simp add: comp_def)
  also have "\<dots> = length (data imgData) div RGBA_BYTES"
    using assms by (auto simp: length_pixelOffsets RGBA_BYTES_def)
  finally show ?thesis using d by simp
qed

theorem getLocalPalette_counts_every_pixel_witness:
  "RGBA_BYTES dvd length (data pixels3) \<and>
   distinct (map lc_key (getLocalPalette 0 pixels3)) \<and>
   sum_list (map lc_pixelsUsing (getLocalPalette 0 pixels3)) = 3"
proof -
  have len: "length (data pixels3) = 12"
    by (simp add: pixels3_def)
  have h: "RGBA_BYTES dvd length (data pixels3)"
    by (simp add: len RGBA_BYTES_def)
  show ?thesis
    using getLocalPalette_counts_every_pixel[OF h, of 0] h by (simp add: len RGBA_BYTES_def)
qed

section \<open>The colour distance\<close>

lemma pixelOffsets_4: "pixelOffsets 4 = [0]"
  by (simp add: pixelOffsets_def RGBA_BYTES_def upt_rec[of 0] upt_rec[of 1] upt_rec[of 2] upt_rec[of 3])

lemma colorDistance_arrays:
  "colorDistance (ColorArray r [a0, a1, a2]) (ColorArray r' [b0, b1, b2]) =
     sqrt (real_of_int ((int a0 - int b0)\<^sup>2 + (int a1 - int b1)\<^sup>2))"
  by (simp add: colorDistance_def channel_def)

text \<open>
  Claim C5. The claim asks for the Euclidean distance over the three channels. The
  third term of \<open>colorDistance\<close> is \<open>colorB[2] - colorB[2]\<close>, so black and pure blue,
  which are 255 apart, are at distance 0, and so are the one-pixel images of them.
\<close>

theorem colorDistance_ignores_blue:
  "colorDistance (ColorArray Temporary [0, 0, 0]) (ColorArray Temporary [0, 0, 255]) = 0 \<and>
   sqrt (real_of_int ((0 - 0)\<^sup>2 + (0 - 0)\<^sup>2 + (0 - 255)\<^sup>2)) = 255 \<and>
   imageDataDistance blackPixel bluePixel = 0"
proof -
  have "sqrt (real_of_int ((0 - 0)\<^sup>2 + (0 - 0)\<^sup>2 + (0 - 255)\<^sup>2)) = sqrt ((255 :: real)\<^sup>2)"
    by simp
  then have e: "sqrt (real_of_int ((0 - 0)\<^sup>2 + (0 - 0)\<^sup>2 + (0 - 255)\<^sup>2)) = 255"
    by (simp only: real_sqrt_abs abs_numeral)
  have c: "colorDistance (ColorArray Temporary [0, 0, 0]) (ColorArray Temporary [0, 0, 255]) = 0"
    by (simp add: colorDistance_arrays)
  have len: "length (data blackPixel) = 4"
    by (simp add: blackPixel_def)
  have "imageDataDistance blackPixel bluePixel =
          0 + colorDistance (ColorArray Temporary (arraySlice (data blackPixel) 0 (0 + 3)))
                (ColorArray Temporary (arraySlice (data bluePixel) 0 (0 + 3)))"
    unfolding imageDataDistance_def len pixelOffsets_4 by simp
  also have "\<dots> = 0"
    using c by (simp add: arraySlice_def blackPixel_def bluePixel_def)
  finally show ?thesis using c e by blast
qed

section \<open>One step of the background repair\<close>

lemma repairStep_unchanged:
  "objGet obj key = Some sub \<Longrightarrow> conforms bg sub \<Longrightarrow> repairStep bg obj key = obj"
  by (auto simp: repairStep_def conforms_def)

lemma repairStep_absent: "objGet obj key = None \<Longrightarrow> repairStep bg obj key = obj"
  by (simp add: repairStep_def)

lemma repairStep_changed:
  assumes "objGet obj key = Some sub" and "\<not> conforms bg sub"
  shows "repairStep bg obj key =
           objDelete
             (case objGet obj (paletteKey (sp_palette (repairedSubpalette bg sub))) of
                Some existing \<Rightarrow>
                  objSet obj (paletteKey (sp_palette (repairedSubpalette bg sub)))
                    (existing \<lparr> sp_tilesUsing := sp_tilesUsing existing + sp_tilesUsing sub \<rparr>)
              | None \<Rightarrow> objSet obj (paletteKey (sp_palette (repairedSubpalette bg sub)))
                          (repairedSubpalette bg sub))
             key"
  using assms
  by (simp add: repairStep_def conforms_def repairedSubpalette_def Let_def not_le split: option.splits)

lemma repaired_newKey:
  assumes "keyedByPalette obj" and "objGet obj key = Some sub"
  shows "paletteKey (sp_palette (repairedSubpalette bg sub)) \<noteq> key"
proof -
  have "key = paletteKey (sp_palette sub)"
    using objGet_list_all[OF _ assms(2), of "\<lambda>kv. fst kv = paletteKey (sp_palette (snd kv))"] assms(1)
    by (simp add: keyedByPalette_def)
  moreover have "length (sp_palette (repairedSubpalette bg sub)) = Suc (length (sp_palette sub))"
    by (simp add: repairedSubpalette_def length_arraySortColors)
  ultimately show ?thesis
    using paletteKey_longer by blast
qed

lemma repairStep_invariants:
  assumes inv: "keyedByPalette obj"
  shows "keyedByPalette (repairStep bg obj key) \<and>
         totalTilesUsing (repairStep bg obj key) = totalTilesUsing obj"
proof (cases "objGet obj key")
  case None
  then show ?thesis using inv by (simp add: repairStep_absent)
next
  case (Some sub)
  show ?thesis
  proof (cases "conforms bg sub")
    case True
    with Some inv show ?thesis by (simp add: repairStep_unchanged)
  next
    case False
    define rep where "rep = repairedSubpalette bg sub"
    define newKey where "newKey = paletteKey (sp_palette rep)"
    have ne: "newKey \<noteq> key"
      using repaired_newKey[OF inv Some] by (simp add: newKey_def rep_def)
    have d: "distinct (map fst obj)"
      using inv by (simp add: keyedByPalette_def)
    show ?thesis
    proof (cases "objGet obj newKey")
      case None
      have step: "repairStep bg obj key = objDelete (objSet obj newKey rep) key"
        using repairStep_changed[OF Some False] None by (simp add: newKey_def rep_def)
      have "keyedByPalette (objDelete (objSet obj newKey rep) key)"
        using inv
        by (auto simp: keyedByPalette_def newKey_def intro!: distinct_objDelete distinct_objSet
            list_all_objDelete list_all_objSet)
      moreover have "totalTilesUsing (objSet obj newKey rep) = totalTilesUsing obj + sp_tilesUsing rep"
        using sum_objSet[of sp_tilesUsing obj newKey rep] None by (simp add: totalTilesUsing_def)
      moreover have "totalTilesUsing (objDelete (objSet obj newKey rep) key) + sp_tilesUsing sub
                       = totalTilesUsing (objSet obj newKey rep)"
        using sum_objDelete[of "objSet obj newKey rep" sp_tilesUsing key] d Some ne
        by (simp add: totalTilesUsing_def distinct_objSet objGet_objSet)
      moreover have "sp_tilesUsing rep = sp_tilesUsing sub"
        by (simp add: rep_def repairedSubpalette_def)
      ultimately show ?thesis using step by simp
    next
      case (Some existing)
      define ex where "ex = existing \<lparr> sp_tilesUsing := sp_tilesUsing existing + sp_tilesUsing sub \<rparr>"
      have step: "repairStep bg obj key = objDelete (objSet obj newKey ex) key"
        using repairStep_changed[OF \<open>objGet obj key = Some sub\<close> False] Some
        by (simp add: newKey_def rep_def ex_def)
      have "newKey = paletteKey (sp_palette existing)"
        using objGet_list_all[OF _ Some, of "\<lambda>kv. fst kv = paletteKey (sp_palette (snd kv))"] inv
        by (simp add: keyedByPalette_def)
      then have "keyedByPalette (objDelete (objSet obj newKey ex) key)"
        using inv
        by (auto simp: keyedByPalette_def ex_def intro!: distinct_objDelete distinct_objSet
            list_all_objDelete list_all_objSet)
      moreover have "totalTilesUsing (objSet obj newKey ex) + sp_tilesUsing existing
                       = totalTilesUsing obj + sp_tilesUsing ex"
        using sum_objSet[of sp_tilesUsing obj newKey ex] Some by (simp add: totalTilesUsing_def)
      moreover have "totalTilesUsing (objDelete (objSet obj newKey ex) key) + sp_tilesUsing sub
                       = totalTilesUsing (objSet obj newKey ex)"
        using sum_objDelete[of "objSet obj newKey ex" sp_tilesUsing key] d \<open>objGet obj key = Some sub\<close> ne
        by (simp add: totalTilesUsing_def distinct_objSet objGet_objSet)
      moreover have "sp_tilesUsing ex = sp_tilesUsing existing + sp_tilesUsing sub"
        by (simp add: ex_def)
      ultimately show ?thesis using step by simp
    qed
  qed
qed






lemma ex_keys_ne: "paletteKey palA \<noteq> paletteKey palB"
  by (rule paletteKey_longer[THEN not_sym]) (simp add: palA_def palB_def)


lemma exTable_keyed: "keyedByPalette exTable"
  by (simp add: keyedByPalette_def exTable_def ex_keys_ne subA_def subB_def)


section \<open>The whole background repair\<close>

lemma conforms_repaired: "conforms bg (repairedSubpalette bg sub)"
  by (simp add: conforms_def repairedSubpalette_def repaired_includes)

lemma conforms_tilesUsing [simp]: "conforms bg (sub \<lparr> sp_tilesUsing := n \<rparr>) = conforms bg sub"
  by (simp add: conforms_def)

lemma set_objDelete: "set (objDelete obj k) = {kv \<in> set obj. fst kv \<noteq> k}"
  by (auto simp: objDelete_def)

lemma repairStep_progress:
  assumes inv: "keyedByPalette obj"
    and r: "\<And>k e. (k, e) \<in> set obj \<Longrightarrow> conforms bg e \<or> k \<in> set (key # rest)"
    and m: "(k, e) \<in> set (repairStep bg obj key)"
  shows "conforms bg e \<or> k \<in> set rest"
proof -
  have d: "distinct (map fst obj)"
    using inv by (simp add: keyedByPalette_def)
  show ?thesis
  proof (cases "objGet obj key")
    case None
    with m have "(k, e) \<in> set obj" by (simp add: repairStep_absent)
    moreover have "k \<noteq> key"
    proof
      assume "k = key"
      with \<open>(k, e) \<in> set obj\<close> have "objGet obj key = Some e" using objGet_iff[OF d] by simp
      with None show False by simp
    qed
    ultimately show ?thesis using r[of k e] by simp
  next
    case (Some sub)
    show ?thesis
    proof (cases "conforms bg sub")
      case True
      with m Some have in_obj: "(k, e) \<in> set obj" by (simp add: repairStep_unchanged)
      show ?thesis
      proof (cases "k = key")
        case True
        with in_obj have "objGet obj key = Some e" using objGet_iff[OF d] by simp
        with Some have "e = sub" by simp
        with \<open>conforms bg sub\<close> show ?thesis by simp
      next
        case False
        with in_obj r[of k e] show ?thesis by simp
      qed
    next
      case False
      define rep where "rep = repairedSubpalette bg sub"
      define newKey where "newKey = paletteKey (sp_palette rep)"
      have ne: "newKey \<noteq> key"
        using repaired_newKey[OF inv Some] by (simp add: newKey_def rep_def)
      obtain v where step: "repairStep bg obj key = objDelete (objSet obj newKey v) key"
        and v: "v = rep \<or> (\<exists>existing. objGet obj newKey = Some existing \<and>
                  v = existing \<lparr> sp_tilesUsing := sp_tilesUsing existing + sp_tilesUsing sub \<rparr>)"
        using repairStep_changed[OF Some False]
        by (cases "objGet obj newKey") (auto simp: newKey_def rep_def)
      from m step have kk: "k \<noteq> key" and "(k, e) \<in> set (objSet obj newKey v)"
        by (auto simp: set_objDelete)
      then consider "(k, e) \<in> set obj" | "k = newKey" "e = v"
        using set_objSet[of obj newKey v] by auto
      then show ?thesis
      proof cases
        case 1
        with r[of k e] kk show ?thesis by simp
      next
        case 2
        from v show ?thesis
        proof
          assume "v = rep"
          with 2 show ?thesis by (simp add: rep_def conforms_repaired)
        next
          assume "\<exists>existing. objGet obj newKey = Some existing \<and>
                  v = existing \<lparr> sp_tilesUsing := sp_tilesUsing existing + sp_tilesUsing sub \<rparr>"
          then obtain existing where ex: "objGet obj newKey = Some existing"
            and ve: "v = existing \<lparr> sp_tilesUsing := sp_tilesUsing existing + sp_tilesUsing sub \<rparr>"
            by blast
          from ex have "(newKey, existing) \<in> set obj" by (rule objGet_mem)
          then have "conforms bg existing \<or> newKey \<in> set (key # rest)" by (rule r)
          with ne 2 ve show ?thesis by auto
        qed
      qed
    qed
  qed
qed

lemma repair_fold_conforms:
  "keyedByPalette obj \<Longrightarrow>
   (\<And>k e. (k, e) \<in> set obj \<Longrightarrow> conforms bg e \<or> k \<in> set keys) \<Longrightarrow>
   (k, e) \<in> set (foldl (repairStep bg) obj keys) \<Longrightarrow> conforms bg e"
proof (induction keys arbitrary: obj)
  case Nil
  then show ?case by fastforce
next
  case (Cons key rest)
  have "keyedByPalette (repairStep bg obj key)"
    using Cons.prems(1) by (simp add: repairStep_invariants)
  moreover have "\<And>k e. (k, e) \<in> set (repairStep bg obj key) \<Longrightarrow> conforms bg e \<or> k \<in> set rest"
    by (rule repairStep_progress[OF Cons.prems(1)]) (rule Cons.prems(2))
  ultimately show ?case
    using Cons.IH[of "repairStep bg obj key"] Cons.prems(3) by simp
qed

lemma repairBackground_conforms:
  assumes "keyedByPalette obj" and "(k, e) \<in> set (repairBackground bg obj)"
  shows "conforms bg e"
proof -
  have "\<And>k e. (k, e) \<in> set obj \<Longrightarrow> conforms bg e \<or> k \<in> set (hashKeys obj)"
    by (force simp: hashKeys_def)
  then show ?thesis
    using repair_fold_conforms[OF assms(1), of bg "hashKeys obj" k e] assms(2)
    by (simp add: repairBackground_def)
qed

lemma repair_fold_noop:
  "(\<And>k e. (k, e) \<in> set obj \<Longrightarrow> conforms bg e) \<Longrightarrow> foldl (repairStep bg) obj keys = obj"
proof (induction keys)
  case Nil
  then show ?case by simp
next
  case (Cons key rest)
  have "repairStep bg obj key = obj"
  proof (cases "objGet obj key")
    case None
    then show ?thesis by (rule repairStep_absent)
  next
    case (Some sub)
    then have "(key, sub) \<in> set obj" by (rule objGet_mem)
    then have "conforms bg sub" by (rule Cons.prems)
    with Some show ?thesis by (rule repairStep_unchanged)
  qed
  with Cons show ?case by simp
qed

text \<open>
  Claim C7. Running the background repair on the outcome of a background repair changes
  nothing: after one pass every candidate has four colours or holds the background
  colour, so the second pass appends no colour, meets no key collision and merges
  nothing. A table whose every member already conforms is left as it is by the first
  pass too.
\<close>

theorem repairBackground_idempotent:
  assumes "keyedByPalette obj"
  shows "repairBackground bg (repairBackground bg obj) = repairBackground bg obj \<and>
         (list_all (\<lambda>kv. conforms bg (snd kv)) obj \<longrightarrow> repairBackground bg obj = obj)"
proof
  have "\<And>k e. (k, e) \<in> set (repairBackground bg obj) \<Longrightarrow> conforms bg e"
    using assms by (rule repairBackground_conforms)
  then show "repairBackground bg (repairBackground bg obj) = repairBackground bg obj"
    unfolding repairBackground_def[of bg "repairBackground bg obj"] by (rule repair_fold_noop)
  show "list_all (\<lambda>kv. conforms bg (snd kv)) obj \<longrightarrow> repairBackground bg obj = obj"
  proof
    assume "list_all (\<lambda>kv. conforms bg (snd kv)) obj"
    then have "\<And>k e. (k, e) \<in> set obj \<Longrightarrow> conforms bg e"
      by (force simp: list_all_iff)
    then show "repairBackground bg obj = obj"
      unfolding repairBackground_def by (rule repair_fold_noop)
  qed
qed


lemma exTable2_keyed: "keyedByPalette exTable2"
  by (simp add: keyedByPalette_def exTable2_def)

theorem repairBackground_idempotent_witness:
  "keyedByPalette exTable \<and>
   repairBackground bgEx (repairBackground bgEx exTable) = repairBackground bgEx exTable \<and>
   keyedByPalette exTable2 \<and>
   repairBackground bgEx (repairBackground bgEx exTable2) = repairBackground bgEx exTable2 \<and>
   keyedByPalette [(paletteKey palB, subB)] \<and>
   list_all (\<lambda>kv. conforms bgEx (snd kv)) [(paletteKey palB, subB)] \<and>
   repairBackground bgEx [(paletteKey palB, subB)] = [(paletteKey palB, subB)]"
proof -
  have k: "keyedByPalette [(paletteKey palB, subB)]"
    by (simp add: keyedByPalette_def subB_def)
  have c: "list_all (\<lambda>kv. conforms bgEx (snd kv)) [(paletteKey palB, subB)]"
    by (simp add: conforms_def subB_def palB_def COLORS_PER_SUBPALETTE_def)
  show ?thesis
    using repairBackground_idempotent[OF exTable_keyed, of bgEx]
      repairBackground_idempotent[OF exTable2_keyed, of bgEx]
      repairBackground_idempotent[OF k, of bgEx] exTable_keyed exTable2_keyed k c
    by simp
qed

section \<open>The candidate subpalettes\<close>

lemma foldl_or: "foldl (\<lambda>has c. has \<or> P c) acc xs = (acc \<or> (\<exists>c \<in> set xs. P c))"
  by (induction xs arbitrary: acc) auto

lemma hasBackgroundColor_iff:
  "hasBackgroundColor bg sub = (\<exists>c \<in> set (sp_palette sub). normalizeColorHex bg = normalizeColorHex c)"
  by (simp add: hasBackgroundColor_def foldl_or)

lemma enumerate_length_le:
  assumes "c \<in> set (enumeratePaletteOptions p k)"
  shows "length c \<le> k"
proof -
  have "k = 0 \<or> (1 \<le> k \<and> k \<le> length p) \<or> (2 \<le> k \<and> length p < k) \<or> (k = 1 \<and> length p = 0)"
    by arith
  then consider "k = 0" | "1 \<le> k" "k \<le> length p" | "2 \<le> k" "length p < k" | "k = 1" "p = []"
    by auto
  then show ?thesis
  proof cases
    case 1
    with assms show ?thesis by (simp add: enumeratePaletteOptions.simps)
  next
    case 2
    with assms show ?thesis by (simp add: enumerate_eq_combinations combinations_elem)
  next
    case 3
    with assms show ?thesis by (simp add: enumerate_short)
  next
    case 4
    with assms show ?thesis by (simp add: enumeratePaletteOptions.simps)
  qed
qed

lemma aggregateOptions_within:
  "paletteWithin obj \<Longrightarrow> (\<And>c. c \<in> set opts \<Longrightarrow> length c \<le> COLORS_PER_SUBPALETTE) \<Longrightarrow>
   paletteWithin (aggregateOptions obj opts)"
proof (induction opts arbitrary: obj)
  case Nil
  then show ?case by (simp add: aggregateOptions_def)
next
  case (Cons c opts)
  define sub where "sub = (case objGet obj (paletteKey c) of
                             Some s \<Rightarrow> s
                           | None \<Rightarrow> \<lparr> sp_key = paletteKey c, sp_palette = c, sp_tilesUsing = 0 \<rparr>)"
  have "length (sp_palette sub) \<le> COLORS_PER_SUBPALETTE"
  proof (cases "objGet obj (paletteKey c)")
    case None
    then show ?thesis using Cons.prems(2)[of c] by (simp add: sub_def)
  next
    case (Some s)
    then show ?thesis
      using objGet_list_all[OF Cons.prems(1)[unfolded paletteWithin_def] Some] by (simp add: sub_def)
  qed
  then have "paletteWithin (objSet obj (paletteKey c) (sub \<lparr> sp_tilesUsing := sp_tilesUsing sub + 1 \<rparr>))"
    using Cons.prems(1) by (auto simp: paletteWithin_def intro!: list_all_objSet)
  then have "paletteWithin (aggregateOptions
      (objSet obj (paletteKey c) (sub \<lparr> sp_tilesUsing := sp_tilesUsing sub + 1 \<rparr>)) opts)"
    using Cons.IH Cons.prems(2) by simp
  then show ?case
    by (simp add: aggregateOptions_def Let_def sub_def)
qed

lemma processTile_within:
  assumes "paletteWithin (snd tables)"
  shows "paletteWithin (snd (processTile tables numbered))"
proof -
  have "paletteWithin (aggregateOptions (snd tables) (enumeratePaletteOptions p COLORS_PER_SUBPALETTE))" for p
    using assms by (rule aggregateOptions_within) (rule enumerate_length_le)
  then show ?thesis
    by (simp add: processTile_def Let_def)
qed

lemma processTiles_within:
  "paletteWithin (snd tables) \<Longrightarrow> paletteWithin (snd (foldl processTile tables numbered))"
  by (induction numbered arbitrary: tables) (simp_all add: processTile_within)

lemma processColorInformation_within: "paletteWithin (snd (processColorInformation ctx tiles))"
  unfolding processColorInformation_def
  by (rule processTiles_within) (simp add: paletteWithin_def)

lemma length_arraySlice: "length (arraySlice arr i (i + n)) \<le> n"
  by (simp add: arraySlice_def)

lemma customSubpalette_within:
  assumes "paletteWithin obj" and "chunkSize = (if backgroundTruthy bg then 3 else 4)"
  shows "paletteWithin (customSubpalette bg colors chunkSize obj i)"
proof -
  have "length (case bg of Some c \<Rightarrow> if truthy c then c # arraySlice colors i (i + chunkSize)
                                   else arraySlice colors i (i + chunkSize)
                 | None \<Rightarrow> arraySlice colors i (i + chunkSize)) \<le> COLORS_PER_SUBPALETTE"
    using length_arraySlice[of colors i chunkSize] assms(2)
    by (auto simp: COLORS_PER_SUBPALETTE_def backgroundTruthy_def split: option.splits)
  then show ?thesis
    using assms(1) unfolding customSubpalette_def Let_def paletteWithin_def
    by (intro list_all_objSet) simp_all
qed

lemma customSubpalettes_within:
  "paletteWithin obj \<Longrightarrow> chunkSize = (if backgroundTruthy bg then 3 else 4) \<Longrightarrow>
   paletteWithin (foldl (customSubpalette bg colors chunkSize) obj offsets)"
  by (induction offsets arbitrary: obj) (simp_all add: customSubpalette_within)

lemma processCustomPalette_within:
  "paletteWithin (fst (snd (processCustomPalette bg colors)))"
proof -
  have "paletteWithin []"
    by (simp add: paletteWithin_def)
  then have "paletteWithin (foldl (customSubpalette bg colors (if backgroundTruthy bg then 3 else 4)) []
      (chunkOffsets (length colors) (if backgroundTruthy bg then 3 else 4)))"
    by (rule customSubpalettes_within) simp
  then show ?thesis
    by (simp add: processCustomPalette_def Let_def)
qed

lemma collectTables_within:
  assumes "collectTables ctx opts src = Inr (cu, sp, shared)"
  shows "paletteWithin sp"
proof (cases "customPaletteGiven (customPalette opts)")
  case True
  with assms obtain colors where "processCustomPalette (backgroundColor opts) colors = (cu, sp, shared)"
    by (auto simp: collectTables_def split: sum.splits)
  then have "sp = fst (snd (processCustomPalette (backgroundColor opts) colors))"
    by simp
  then show ?thesis by (simp add: processCustomPalette_within)
next
  case False
  with assms have "sp = snd (processColorInformation ctx
      (splitIntoTiles src (tileSampleWidth opts) (tileSampleHeight opts)))"
    by (auto simp: collectTables_def split: prod.splits)
  then show ?thesis by (simp add: processColorInformation_within)
qed

lemma repairStep_within: "paletteWithin obj \<Longrightarrow> paletteWithin (repairStep bg obj key)"
proof (cases "objGet obj key")
  case None
  assume "paletteWithin obj"
  with None show ?thesis by (simp add: repairStep_absent)
next
  case (Some sub)
  assume w: "paletteWithin obj"
  show ?thesis
  proof (cases "conforms bg sub")
    case True
    with Some w show ?thesis by (simp add: repairStep_unchanged)
  next
    case False
    then have "length (sp_palette (repairedSubpalette bg sub)) \<le> COLORS_PER_SUBPALETTE"
      by (simp add: conforms_def repairedSubpalette_def length_arraySortColors)
    moreover have "length (sp_palette existing) \<le> COLORS_PER_SUBPALETTE"
      if "objGet obj k = Some existing" for k existing
      using objGet_list_all[OF w[unfolded paletteWithin_def] that] by simp
    ultimately show ?thesis
      using w unfolding repairStep_changed[OF Some False] paletteWithin_def
      by (cases "objGet obj (paletteKey (sp_palette (repairedSubpalette bg sub)))")
        (simp_all add: list_all_objDelete list_all_objSet)
  qed
qed

lemma repairSteps_within: "paletteWithin obj \<Longrightarrow> paletteWithin (foldl (repairStep bg) obj keys)"
  by (induction keys arbitrary: obj) (simp_all add: repairStep_within)

lemma values_mem:
  "v \<in> set (map (\<lambda>key. the (objGet obj key)) (hashKeys obj)) \<Longrightarrow> \<exists>k. (k, v) \<in> set obj"
proof -
  assume "v \<in> set (map (\<lambda>key. the (objGet obj key)) (hashKeys obj))"
  then obtain k where k: "k \<in> set (map fst obj)" and v: "v = the (objGet obj k)"
    by (auto simp: hashKeys_def)
  from k have "map_of obj k \<noteq> None"
    by (simp add: map_of_eq_None_iff)
  then obtain u where "objGet obj k = Some u"
    by (auto simp: objGet_def)
  with v have "(k, v) \<in> set obj" by (simp add: objGet_mem)
  then show ?thesis ..
qed

lemma validSubpalettes_member:
  assumes "paletteWithin sp" and "sub \<in> set (validSubpalettes opts bg sp)"
  shows "hasBackgroundColor bg sub \<and> length (sp_palette sub) \<le> COLORS_PER_SUBPALETTE"
proof -
  obtain repaired where w: "paletteWithin repaired"
    and v: "validSubpalettes opts bg sp =
              filter (hasBackgroundColor bg) (map (\<lambda>key. the (objGet repaired key)) (hashKeys repaired))"
  proof (cases "customPaletteGiven (customPalette opts)")
    case True
    then have "validSubpalettes opts bg sp =
        filter (hasBackgroundColor bg) (map (\<lambda>key. the (objGet sp key)) (hashKeys sp))"
      by (simp add: validSubpalettes_def)
    with assms(1) that show ?thesis by blast
  next
    case False
    then have "validSubpalettes opts bg sp =
        filter (hasBackgroundColor bg)
          (map (\<lambda>key. the (objGet (repairBackground bg sp) key)) (hashKeys (repairBackground bg sp)))"
      by (simp add: validSubpalettes_def Let_def)
    moreover have "paletteWithin (repairBackground bg sp)"
      unfolding repairBackground_def using assms(1) by (rule repairSteps_within)
    ultimately show ?thesis using that by blast
  qed
  from assms(2) have has: "hasBackgroundColor bg sub"
    and "sub \<in> set (map (\<lambda>key. the (objGet repaired key)) (hashKeys repaired))"
    unfolding v by simp_all
  then obtain k where "(k, sub) \<in> set repaired"
    using values_mem[of sub repaired] by blast
  with w have "length (sp_palette sub) \<le> COLORS_PER_SUBPALETTE"
    unfolding paletteWithin_def list_all_iff by fastforce
  with has show ?thesis by simp
qed

text \<open>
  Claim C1. After the background repair and the filter, every subpalette of the pool
  holds the shared background colour, compared by colour value, and has at most four
  colours; and when the filter leaves no subpalette, the run ends with the error
  \<open>No color palettes have the background color!\<close>. The shuffle is any rearrangement.
\<close>

theorem subpalettes_hold_background:
  assumes shuffle: "\<And>subs. mset (shuffle subs) = mset subs"
    and tables: "collectTables ctxGetImageData opts srcImgData = Inr tables"
  shows "(\<forall>bg pool. selectSubpalettes shuffle opts tables = Inr (bg, pool) \<longrightarrow>
            pool \<noteq> [] \<and>
            (\<forall>sub \<in> set pool.
               (\<exists>c \<in> set (sp_palette sub). normalizeColorHex c = normalizeColorHex bg) \<and>
               length (sp_palette sub) \<le> 4)) \<and>
         (\<forall>bg. selectBackgroundColor (backgroundColor opts) (snd (snd tables)) (rankColors (fst tables)) = Inr bg \<and>
               validSubpalettes opts bg (fst (snd tables)) = [] \<longrightarrow>
               selectSubpalettes shuffle opts tables =
                 Inl (Error ''No color palettes have the background color!''))"
proof (intro conjI allI impI)
  obtain colorsUsedByKey subpalettesByKey shared where t: "tables = (colorsUsedByKey, subpalettesByKey, shared)"
    by (cases tables) auto
  fix bg pool
  assume sel: "selectSubpalettes shuffle opts tables = Inr (bg, pool)"
  define valid where "valid = validSubpalettes opts bg subpalettesByKey"
  from sel have ne: "valid \<noteq> []"
    and pool: "pool = take (SUBPALETTES_PER_IMAGE * 8) (shuffle valid)"
    by (auto simp: selectSubpalettes_def valid_def t Let_def split: sum.splits if_splits)
  have "shuffle valid \<noteq> []"
    using shuffle[of valid] ne by (metis mset_zero_iff)
  then show "pool \<noteq> []"
    by (simp add: pool SUBPALETTES_PER_IMAGE_def)
  show "\<forall>sub \<in> set pool.
          (\<exists>c \<in> set (sp_palette sub). normalizeColorHex c = normalizeColorHex bg) \<and>
          length (sp_palette sub) \<le> 4"
  proof
    fix sub
    assume "sub \<in> set pool"
    then have "sub \<in> set (shuffle valid)"
      unfolding pool by (rule in_set_takeD)
    then have "sub \<in> set valid"
      using shuffle[of valid] by (metis set_mset_mset)
    then show "(\<exists>c \<in> set (sp_palette sub). normalizeColorHex c = normalizeColorHex bg) \<and>
               length (sp_palette sub) \<le> 4"
      using validSubpalettes_member[OF collectTables_within[OF tables[unfolded t]], of sub opts bg]
      by (auto simp: valid_def hasBackgroundColor_iff COLORS_PER_SUBPALETTE_def)
  qed
next
  fix bg
  assume "selectBackgroundColor (backgroundColor opts) (snd (snd tables)) (rankColors (fst tables)) = Inr bg \<and>
          validSubpalettes opts bg (fst (snd tables)) = []"
  then show "selectSubpalettes shuffle opts tables =
               Inl (Error ''No color palettes have the background color!'')"
    by (cases tables) (simp add: selectSubpalettes_def)
qed


lemmas hex_eval = normalizeColorHex_def toLowerCase_def isHexChar_def hexDigits_def parseInt16_def
  hexVal_def numberChannels_def rgb2hex_def hexByte_def channel_def Let_def

lemma hex_black: "normalizeColorHex (ColorString ''#000000'') = ''#000000''"
  by (simp add: hex_eval)

lemma hex_white: "normalizeColorHex (ColorString ''#fcfcfc'') = ''#fcfcfc''"
  by (simp add: hex_eval)

lemma hex_zero: "normalizeColorHex (ColorArray NormalizedBackground [0, 0, 0]) = ''#000000''"
  by (simp add: hex_eval)

lemma customPaletteColors_example: "customPaletteColors ''0f30'' = Inr colorsCustom"
  by (simp add: customPaletteColors_def isHexChar_def hexDigits_def objGet_def nesPalette_def colorsCustom_def)

lemma customPaletteColors_unmet: "customPaletteColors ''30'' = Inr [ColorString ''#fcfcfc'']"
  by (simp add: customPaletteColors_def isHexChar_def hexDigits_def objGet_def nesPalette_def)

lemma paletteKey_example: "paletteKey colorsCustom = ''#000000,#fcfcfc''"
  by (simp add: paletteKey_def colorsCustom_def hex_black hex_white comparatorAscending_def
      SORT_A_FIRST_def SORT_B_FIRST_def SORT_A_B_EQUAL_def)

lemma paletteKey_unmet: "paletteKey [ColorString ''#fcfcfc''] = ''#fcfcfc''"
  by (simp add: paletteKey_def hex_white)

lemma subpalettes_example:
  "fst (snd (processCustomPalette None colorsCustom)) = [(''#000000,#fcfcfc'', hd poolCustom)]"
proof -
  have "chunkOffsets (length colorsCustom) 4 = [0]"
    by (simp add: chunkOffsets_def colorsCustom_def upt_rec)
  moreover have "arraySlice colorsCustom 0 (0 + 4) = colorsCustom"
    by (simp add: arraySlice_def colorsCustom_def)
  ultimately show ?thesis
    by (simp add: processCustomPalette_def backgroundTruthy_def customSubpalette_def Let_def
        paletteKey_example poolCustom_def)
qed

lemma subpalettes_unmet:
  "fst (snd (processCustomPalette (Some (ColorNumber 0)) [ColorString ''#fcfcfc''])) =
     [(''#fcfcfc'', hd poolUnmet)]"
proof -
  have "chunkOffsets (length [ColorString ''#fcfcfc'']) 4 = [0]"
    by (simp add: chunkOffsets_def upt_rec)
  moreover have "arraySlice [ColorString ''#fcfcfc''] 0 (0 + 4) = [ColorString ''#fcfcfc'']"
    by (simp add: arraySlice_def)
  ultimately show ?thesis
    by (simp add: processCustomPalette_def backgroundTruthy_def customSubpalette_def Let_def
        paletteKey_unmet poolUnmet_def)
qed

lemma shared_example: "snd (snd (processCustomPalette None colorsCustom)) = ColorString ''#000000''"
  by (simp add: processCustomPalette_def Let_def colorsCustom_def)

lemma validSubpalettes_example:
  "validSubpalettes optsCustom (ColorString ''#000000'') (fst (snd (processCustomPalette None colorsCustom)))
     = poolCustom"
  unfolding validSubpalettes_def subpalettes_example
  by (simp add: customPaletteGiven_def optsCustom_def
      hashKeys_def objGet_def hasBackgroundColor_iff poolCustom_def colorsCustom_def)

lemma validSubpalettes_unmet:
  "validSubpalettes optsUnmet (ColorArray NormalizedBackground [0, 0, 0])
     (fst (snd (processCustomPalette (Some (ColorNumber 0)) [ColorString ''#fcfcfc'']))) = []"
  unfolding validSubpalettes_def subpalettes_unmet
  by (simp add: customPaletteGiven_def optsUnmet_def optsCustom_def
      hashKeys_def objGet_def hasBackgroundColor_iff poolUnmet_def hex_zero hex_white)

lemma selectSubpalettes_example:
  "selectSubpalettes id optsCustom (processCustomPalette None colorsCustom) =
     Inr (ColorString ''#000000'', poolCustom)"
proof -
  have "selectBackgroundColor (backgroundColor optsCustom) (ColorString ''#000000'') ranked
          = Inr (ColorString ''#000000'')" for ranked
    by (simp add: selectBackgroundColor_def optsCustom_def)
  then show ?thesis
    using validSubpalettes_example shared_example
    by (simp add: selectSubpalettes_def split_beta poolCustom_def SUBPALETTES_PER_IMAGE_def)
qed

theorem subpalettes_hold_background_witness:
  "(\<forall>subs :: subpalette list. mset (id subs) = mset subs) \<and>
   collectTables (\<lambda>p. blackPixel) optsCustom blackPixel = Inr (processCustomPalette None colorsCustom) \<and>
   selectSubpalettes id optsCustom (processCustomPalette None colorsCustom) =
     Inr (ColorString ''#000000'', poolCustom) \<and>
   poolCustom \<noteq> [] \<and>
   list_all (\<lambda>sub. list_ex (\<lambda>c. normalizeColorHex c = normalizeColorHex (ColorString ''#000000''))
                      (sp_palette sub) \<and> length (sp_palette sub) \<le> 4) poolCustom \<and>
   collectTables (\<lambda>p. blackPixel) optsUnmet blackPixel =
     Inr (processCustomPalette (Some (ColorNumber 0)) [ColorString ''#fcfcfc'']) \<and>
   selectBackgroundColor (backgroundColor optsUnmet)
     (snd (snd (processCustomPalette (Some (ColorNumber 0)) [ColorString ''#fcfcfc''])))
     (rankColors (fst (processCustomPalette (Some (ColorNumber 0)) [ColorString ''#fcfcfc'']))) =
     Inr (ColorArray NormalizedBackground [0, 0, 0]) \<and>
   validSubpalettes optsUnmet (ColorArray NormalizedBackground [0, 0, 0])
     (fst (snd (processCustomPalette (Some (ColorNumber 0)) [ColorString ''#fcfcfc'']))) = [] \<and>
   selectSubpalettes id optsUnmet (processCustomPalette (Some (ColorNumber 0)) [ColorString ''#fcfcfc'']) =
     Inl (Error ''No color palettes have the background color!'')"
proof -
  have sh: "\<And>subs :: subpalette list. mset (id subs) = mset subs"
    by simp
  have c1: "collectTables (\<lambda>p. blackPixel) optsCustom blackPixel = Inr (processCustomPalette None colorsCustom)"
    by (simp add: collectTables_def customPaletteGiven_def optsCustom_def customPaletteColors_example)
  have c2: "collectTables (\<lambda>p. blackPixel) optsUnmet blackPixel =
              Inr (processCustomPalette (Some (ColorNumber 0)) [ColorString ''#fcfcfc''])"
    by (simp add: collectTables_def customPaletteGiven_def optsUnmet_def optsCustom_def customPaletteColors_unmet)
  have b: "selectBackgroundColor (backgroundColor optsUnmet)
     (snd (snd (processCustomPalette (Some (ColorNumber 0)) [ColorString ''#fcfcfc''])))
     (rankColors (fst (processCustomPalette (Some (ColorNumber 0)) [ColorString ''#fcfcfc'']))) =
     Inr (ColorArray NormalizedBackground [0, 0, 0])"
    by (simp add: selectBackgroundColor_def optsUnmet_def normalizedArray_def numberChannels_def)
  note t1 = subpalettes_hold_background[OF sh c1, THEN conjunct1, rule_format, OF selectSubpalettes_example]
  note t2 = subpalettes_hold_background[OF sh c2, THEN conjunct2, rule_format, OF conjI[OF b validSubpalettes_unmet]]
  have "list_all (\<lambda>sub. list_ex (\<lambda>c. normalizeColorHex c = normalizeColorHex (ColorString ''#000000''))
                      (sp_palette sub) \<and> length (sp_palette sub) \<le> 4) poolCustom"
    using t1 by (simp add: list_all_iff list_ex_iff)
  moreover have "poolCustom \<noteq> []"
    using t1 by simp
  ultimately show ?thesis
    using sh c1 c2 b t2 selectSubpalettes_example validSubpalettes_unmet by blast
qed


section \<open>The tile grid\<close>

lemma length_splitIntoTiles:
  "length (splitIntoTiles imgData tw th) = ceilDiv (height imgData) th * ceilDiv (width imgData) tw"
  by (simp add: splitIntoTiles_def Let_def length_concat comp_def sum_list_triv)

section \<open>The background colour\<close>








section \<open>Nearest colours\<close>

lemma nesPaletteInverted_exact:
  "list_all (\<lambda>kv. objGet nesPaletteInverted (snd kv) =
                     Some (if snd kv = ''#000000'' then CANONICAL_BLACK else fst kv)) nesPalette"
  by code_simp

lemma nesColorMatch_valid:
  assumes "cacheValid cache"
  shows "fst (nesColorMatch cache c) = nesColorMatchFn c \<and> cacheValid (snd (nesColorMatch cache c))"
  using assms by (auto simp: nesColorMatch_def cacheValid_def Let_def split: option.splits)

lemma nesColorMatchCalls_valid:
  "cacheValid cache \<Longrightarrow> fst (nesColorMatchCalls cache cs) = map nesColorMatchFn cs"
proof (induction cs arbitrary: cache)
  case Nil
  then show ?case by simp
next
  case (Cons c cs)
  from nesColorMatch_valid[OF Cons.prems, of c] Cons.IH[of "snd (nesColorMatch cache c)"]
  show ?case by (simp add: split_beta)
qed

lemma nesColorMatchDistances_first:
  "\<exists>pre nesHex post.
     objectKeys nesPaletteInverted = pre @ nesHex # post \<and>
     cd_key (hd (nesColorMatchDistances hex)) = the (objGet nesPaletteInverted nesHex) \<and>
     (\<forall>h \<in> set pre. colorDistance (ColorString hex) (ColorString nesHex)
                       < colorDistance (ColorString hex) (ColorString h)) \<and>
     (\<forall>h \<in> set post. colorDistance (ColorString hex) (ColorString nesHex)
                        \<le> colorDistance (ColorString hex) (ColorString h))"
proof -
  let ?g = "\<lambda>nesHex. \<lparr> cd_key = the (objGet nesPaletteInverted nesHex),
                         cd_distance = colorDistance (ColorString hex) (ColorString nesHex) \<rparr>"
  let ?xs = "map ?g (objectKeys nesPaletteInverted)"
  let ?best = "hd (nesColorMatchDistances hex)"
  have "length (objectKeys nesPaletteInverted) = 55"
    by code_simp
  then have "?xs \<noteq> []" by auto
  from arraySort_first_minimum[OF this, of cd_distance]
  obtain pre' post' where xs: "?xs = pre' @ ?best # post'"
    and pre': "\<forall>x \<in> set pre'. cd_distance ?best < cd_distance x"
    and post': "\<forall>x \<in> set post'. cd_distance ?best \<le> cd_distance x"
    unfolding nesColorMatchDistances_def by blast
  from xs obtain pre nesHex post where keys: "objectKeys nesPaletteInverted = pre @ nesHex # post"
    and p1: "pre' = map ?g pre" and b: "?best = ?g nesHex" and p2: "post' = map ?g post"
    by (auto simp: map_eq_append_conv map_eq_Cons_conv)
  have "cd_key ?best = the (objGet nesPaletteInverted nesHex)"
    by (simp add: b)
  moreover have "\<forall>h \<in> set pre. colorDistance (ColorString hex) (ColorString nesHex)
                       < colorDistance (ColorString hex) (ColorString h)"
    using pre' by (simp add: p1 b)
  moreover have "\<forall>h \<in> set post. colorDistance (ColorString hex) (ColorString nesHex)
                       \<le> colorDistance (ColorString hex) (ColorString h)"
    using post' by (simp add: p2 b)
  ultimately show ?thesis using keys by blast
qed

text \<open>
  Claim C9. A colour whose normalized key is the colour of a table entry is matched
  to that entry's index, pure black to the canonical index \<open>0f\<close>, by the lookup and
  without a search. A call of the memoized matcher with a valid cache returns what
  the wrapped function returns and leaves a valid cache, so a repeated call returns the
  same index, as does every call of a sequence that starts with the empty cache. When
  the key is not in the table, the index returned is that of the first colour, in
  the order of \<open>Object.keys\<close>, at the least distance.
\<close>

theorem nesColorMatch_exact_and_deterministic:
  "(\<forall>kv \<in> set nesPalette. normalizeColorHex c = snd kv \<longrightarrow>
      nesColorMatchFn c = (if snd kv = ''#000000'' then CANONICAL_BLACK else fst kv)) \<and>
   (cacheValid cache \<longrightarrow>
      fst (nesColorMatch cache c) = nesColorMatchFn c \<and>
      cacheValid (snd (nesColorMatch cache c)) \<and>
      fst (nesColorMatch (snd (nesColorMatch cache c)) c) = fst (nesColorMatch cache c)) \<and>
   fst (nesColorMatchCalls Map.empty cs) = map nesColorMatchFn cs \<and>
   (objGet nesPaletteInverted (normalizeColorHex c) = None \<longrightarrow>
      (\<exists>pre nesHex post.
         objectKeys nesPaletteInverted = pre @ nesHex # post \<and>
         nesColorMatchFn c = the (objGet nesPaletteInverted nesHex) \<and>
         (\<forall>h \<in> set pre. colorDistance (ColorString (normalizeColorHex c)) (ColorString nesHex)
                           < colorDistance (ColorString (normalizeColorHex c)) (ColorString h)) \<and>
         (\<forall>h \<in> set post. colorDistance (ColorString (normalizeColorHex c)) (ColorString nesHex)
                            \<le> colorDistance (ColorString (normalizeColorHex c)) (ColorString h))))"
proof (intro conjI ballI impI)
  fix kv
  assume "kv \<in> set nesPalette" and "normalizeColorHex c = snd kv"
  then show "nesColorMatchFn c = (if snd kv = ''#000000'' then CANONICAL_BLACK else fst kv)"
    using nesPaletteInverted_exact by (simp add: nesColorMatchFn_def list_all_iff)
next
  assume v: "cacheValid cache"
  from nesColorMatch_valid[OF v, of c] show "fst (nesColorMatch cache c) = nesColorMatchFn c"
    and v': "cacheValid (snd (nesColorMatch cache c))"
    by simp_all
  from nesColorMatch_valid[OF v', of c] nesColorMatch_valid[OF v, of c]
  show "fst (nesColorMatch (snd (nesColorMatch cache c)) c) = fst (nesColorMatch cache c)"
    by simp
next
  show "fst (nesColorMatchCalls Map.empty cs) = map nesColorMatchFn cs"
    by (rule nesColorMatchCalls_valid) (simp add: cacheValid_def)
next
  assume "objGet nesPaletteInverted (normalizeColorHex c) = None"
  then have "nesColorMatchFn c = cd_key (hd (nesColorMatchDistances (normalizeColorHex c)))"
    by (simp add: nesColorMatchFn_def)
  with nesColorMatchDistances_first[of "normalizeColorHex c"]
  show "\<exists>pre nesHex post.
         objectKeys nesPaletteInverted = pre @ nesHex # post \<and>
         nesColorMatchFn c = the (objGet nesPaletteInverted nesHex) \<and>
         (\<forall>h \<in> set pre. colorDistance (ColorString (normalizeColorHex c)) (ColorString nesHex)
                           < colorDistance (ColorString (normalizeColorHex c)) (ColorString h)) \<and>
         (\<forall>h \<in> set post. colorDistance (ColorString (normalizeColorHex c)) (ColorString nesHex)
                            \<le> colorDistance (ColorString (normalizeColorHex c)) (ColorString h))"
    by simp
qed

lemma hex_gray: "normalizeColorHex (ColorArray Temporary [124, 124, 124]) = ''#7c7c7c''"
  by (simp add: hex_eval)

lemma hex_number_zero: "normalizeColorHex (ColorNumber 0) = ''#000000''"
  by (simp add: hex_eval)

lemma hex_almost_black: "normalizeColorHex (ColorArray Temporary [1, 1, 1]) = ''#010101''"
  by (simp add: hex_eval)

lemma almost_black_absent: "objGet nesPaletteInverted ''#010101'' = None"
  by code_simp

theorem nesColorMatch_exact_and_deterministic_witness:
  "(''00'', ''#7c7c7c'') \<in> set nesPalette \<and>
   normalizeColorHex (ColorArray Temporary [124, 124, 124]) = ''#7c7c7c'' \<and>
   nesColorMatchFn (ColorArray Temporary [124, 124, 124]) = ''00'' \<and>
   (''0d'', ''#000000'') \<in> set nesPalette \<and>
   normalizeColorHex (ColorNumber 0) = ''#000000'' \<and>
   nesColorMatchFn (ColorNumber 0) = ''0f'' \<and>
   cacheValid Map.empty \<and>
   fst (nesColorMatch Map.empty (ColorNumber 0)) = ''0f'' \<and>
   fst (nesColorMatch (snd (nesColorMatch Map.empty (ColorNumber 0))) (ColorNumber 0)) = ''0f'' \<and>
   fst (nesColorMatchCalls Map.empty [ColorNumber 0, ColorNumber 0]) = [''0f'', ''0f''] \<and>
   objGet nesPaletteInverted (normalizeColorHex (ColorArray Temporary [1, 1, 1])) = None \<and>
   (\<exists>pre nesHex post.
      objectKeys nesPaletteInverted = pre @ nesHex # post \<and>
      nesColorMatchFn (ColorArray Temporary [1, 1, 1]) = the (objGet nesPaletteInverted nesHex) \<and>
      list_all (\<lambda>h. colorDistance (ColorString ''#010101'') (ColorString nesHex)
                      < colorDistance (ColorString ''#010101'') (ColorString h)) pre \<and>
      list_all (\<lambda>h. colorDistance (ColorString ''#010101'') (ColorString nesHex)
                      \<le> colorDistance (ColorString ''#010101'') (ColorString h)) post)"
proof -
  have m1: "(''00'', ''#7c7c7c'') \<in> set nesPalette" and m2: "(''0d'', ''#000000'') \<in> set nesPalette"
    by (simp_all add: nesPalette_def)
  have v: "cacheValid Map.empty"
    by (simp add: cacheValid_def)
  have a: "objGet nesPaletteInverted (normalizeColorHex (ColorArray Temporary [1, 1, 1])) = None"
    unfolding hex_almost_black by (rule almost_black_absent)
  note t = nesColorMatch_exact_and_deterministic
  from t[of "ColorArray Temporary [124, 124, 124]", THEN conjunct1, rule_format, OF m1] hex_gray
  have g: "nesColorMatchFn (ColorArray Temporary [124, 124, 124]) = ''00''"
    by simp
  from t[of "ColorNumber 0", THEN conjunct1, rule_format, OF m2] hex_number_zero
  have z: "nesColorMatchFn (ColorNumber 0) = ''0f''"
    by (simp add: CANONICAL_BLACK_def)
  from t[of "ColorNumber 0" Map.empty, THEN conjunct2, THEN conjunct1, rule_format, OF v] z
  have c: "fst (nesColorMatch Map.empty (ColorNumber 0)) = ''0f''"
    "fst (nesColorMatch (snd (nesColorMatch Map.empty (ColorNumber 0))) (ColorNumber 0)) = ''0f''"
    by simp_all
  from t[of _ _ "[ColorNumber 0, ColorNumber 0]", THEN conjunct2, THEN conjunct2, THEN conjunct1] z
  have s: "fst (nesColorMatchCalls Map.empty [ColorNumber 0, ColorNumber 0]) = [''0f'', ''0f'']"
    by simp
  from t[of "ColorArray Temporary [1, 1, 1]", THEN conjunct2, THEN conjunct2, THEN conjunct2, rule_format, OF a]
  have n: "\<exists>pre nesHex post.
      objectKeys nesPaletteInverted = pre @ nesHex # post \<and>
      nesColorMatchFn (ColorArray Temporary [1, 1, 1]) = the (objGet nesPaletteInverted nesHex) \<and>
      list_all (\<lambda>h. colorDistance (ColorString ''#010101'') (ColorString nesHex)
                      < colorDistance (ColorString ''#010101'') (ColorString h)) pre \<and>
      list_all (\<lambda>h. colorDistance (ColorString ''#010101'') (ColorString nesHex)
                      \<le> colorDistance (ColorString ''#010101'') (ColorString h)) post"
    unfolding hex_almost_black list_all_iff by blast
  show ?thesis
    using m1 m2 hex_gray hex_number_zero g z v c s a n by blast
qed


section \<open>Assigning subpalettes to tiles\<close>






















section \<open>Splitting an image into tiles\<close>

lemma getImageDataSubsection_fold:
  "getImageDataSubsection imgData sx sy sw sh =
     foldl (subsectionStep imgData sx sy sw) (newImageData sw sh) [0 ..< sh]"
  by (simp add: getImageDataSubsection_def subsectionStep_def[abs_def] subsectionRow_def Let_def)

lemma length_concat_rows:
  "(\<And>y. y < k \<Longrightarrow> length (row y) = n) \<Longrightarrow> length (concat (map row [0 ..< k])) = k * n"
  by (induction k) auto

lemma subsection_rows:
  assumes "k \<le> sh" and "\<And>y. y < k \<Longrightarrow> length (subsectionRow imgData sx sy sw y) = rgbaOffset sw"
  shows "foldl (subsectionStep imgData sx sy sw) (newImageData sw sh) [0 ..< k] =
           \<lparr> width = sw, height = sh,
             data = concat (map (subsectionRow imgData sx sy sw) [0 ..< k]) @
                    replicate ((sh - k) * rgbaOffset sw) 0 \<rparr>"
  using assms
proof (induction k)
  case 0
  then show ?case by (simp add: newImageData_def rgbaOffset_def mult_ac)
next
  case (Suc k)
  let ?rows = "concat (map (subsectionRow imgData sx sy sw) [0 ..< k])"
  have len: "length ?rows = k * rgbaOffset sw"
    using Suc.prems(2) by (intro length_concat_rows) simp
  have row: "length (subsectionRow imgData sx sy sw k) = rgbaOffset sw"
    using Suc.prems(2) by simp
  have off: "rgbaOffset (k * sw) = k * rgbaOffset sw"
    by (simp add: rgbaOffset_def mult_ac)
  have rest: "(sh - k) * rgbaOffset sw - rgbaOffset sw = (sh - Suc k) * rgbaOffset sw"
    by (simp add: diff_mult_distrib)
  have ih: "foldl (subsectionStep imgData sx sy sw) (newImageData sw sh) [0 ..< k] =
          \<lparr> width = sw, height = sh, data = ?rows @ replicate ((sh - k) * rgbaOffset sw) 0 \<rparr>"
    using Suc by simp
  have "foldl (subsectionStep imgData sx sy sw) (newImageData sw sh) [0 ..< Suc k] =
          subsectionStep imgData sx sy sw
            \<lparr> width = sw, height = sh, data = ?rows @ replicate ((sh - k) * rgbaOffset sw) 0 \<rparr> k"
    by (simp add: ih)
  also have "\<dots> = \<lparr> width = sw, height = sh,
                       data = concat (map (subsectionRow imgData sx sy sw) [0 ..< Suc k]) @
                              replicate ((sh - Suc k) * rgbaOffset sw) 0 \<rparr>"
    by (simp add: subsectionStep_def typedArraySet_def off len row rest)
  finally show ?case .
qed

lemma take_drop_rows:
  assumes "\<And>y. y < m \<Longrightarrow> length (row y) = n" and "j < m" and "r + c \<le> n"
  shows "take c (drop (j * n + r) (concat (map row [0 ..< m]))) = take c (drop r (row j))"
  using assms
proof (induction m)
  case 0
  then show ?case by simp
next
  case (Suc m)
  have len: "length (concat (map row [0 ..< m])) = m * n"
    using Suc.prems(1) by (intro length_concat_rows) simp
  show ?case
  proof (cases "j = m")
    case True
    then show ?thesis
      using len Suc.prems by simp
  next
    case False
    with Suc.prems have j: "j < m" by simp
    then have "Suc j \<le> m" by simp
    then have "Suc j * n \<le> m * n" by (rule mult_le_mono1)
    then have "j * n + r + c \<le> m * n"
      using Suc.prems(3) by simp
    then show ?thesis
      using Suc.IH[OF _ j Suc.prems(3)] Suc.prems(1) len by simp
  qed
qed


lemma subsection_interior:
  assumes wf: "length (data imgData) = width imgData * height imgData * RGBA_BYTES"
    and x: "sx + sw \<le> width imgData" and y: "sy + sh \<le> height imgData"
  shows "getImageDataSubsection imgData sx sy sw sh =
           \<lparr> width = sw, height = sh,
             data = concat (map (subsectionRow imgData sx sy sw) [0 ..< sh]) \<rparr>"
    and "\<And>j. j < sh \<Longrightarrow> length (subsectionRow imgData sx sy sw j) = rgbaOffset sw"
proof -
  show rows: "length (subsectionRow imgData sx sy sw j) = rgbaOffset sw" if "j < sh" for j
  proof -
    from that y have "Suc (sy + j) \<le> height imgData" by simp
    then have "Suc (sy + j) * width imgData \<le> height imgData * width imgData"
      by (rule mult_le_mono1)
    then have "sx + sw + (sy + j) * width imgData \<le> width imgData * height imgData"
      using x by (simp add: mult_ac)
    then have "rgbaOffset (sx + (sy + j) * width imgData) + rgbaOffset sw \<le> length (data imgData)"
      unfolding wf rgbaOffset_def RGBA_BYTES_def by simp
    then show ?thesis
      by (simp add: subsectionRow_def arraySlice_def)
  qed
  from subsection_rows[of sh sh imgData sx sy sw] rows
  show "getImageDataSubsection imgData sx sy sw sh =
           \<lparr> width = sw, height = sh,
             data = concat (map (subsectionRow imgData sx sy sw) [0 ..< sh]) \<rparr>"
    by (simp add: getImageDataSubsection_fold)
qed

lemma take_drop_take: "a + c \<le> b \<Longrightarrow> take c (drop a (take b xs)) = take c (drop a xs)"
  by (simp add: drop_take min_def)

lemma subsection_pixel:
  assumes wf: "length (data imgData) = width imgData * height imgData * RGBA_BYTES"
    and x: "sx + sw \<le> width imgData" and y: "sy + sh \<le> height imgData"
    and i: "i < sw" and j: "j < sh"
  shows "pixelAt (getImageDataSubsection imgData sx sy sw sh) i j = pixelAt imgData (sx + i) (sy + j)"
proof -
  let ?row = "subsectionRow imgData sx sy sw"
  have r: "\<And>y. y < sh \<Longrightarrow> length (?row y) = rgbaOffset sw"
    using subsection_interior(2)[OF wf x y] .
  have fit: "rgbaOffset i + RGBA_BYTES \<le> rgbaOffset sw"
    using i by (simp add: rgbaOffset_def RGBA_BYTES_def)
  have "pixelAt (getImageDataSubsection imgData sx sy sw sh) i j =
          take RGBA_BYTES (drop (j * rgbaOffset sw + rgbaOffset i) (concat (map ?row [0 ..< sh])))"
    by (simp add: subsection_interior(1)[OF wf x y] pixelAt_def arraySlice_def rgbaOffset_def
        algebra_simps)
  also have "\<dots> = take RGBA_BYTES (drop (rgbaOffset i) (?row j))"
    using r j fit by (rule take_drop_rows)
  also have "\<dots> = take RGBA_BYTES
      (drop (rgbaOffset i + rgbaOffset (sx + (sy + j) * width imgData)) (data imgData))"
    using fit by (simp add: subsectionRow_def arraySlice_def take_drop_take)
  also have "\<dots> = pixelAt imgData (sx + i) (sy + j)"
    by (simp add: pixelAt_def arraySlice_def rgbaOffset_def algebra_simps)
  finally show ?thesis .
qed

lemma subsection_size:
  "width (getImageDataSubsection imgData sx sy sw sh) = sw \<and>
   height (getImageDataSubsection imgData sx sy sw sh) = sh"
proof -
  have "width (foldl (subsectionStep imgData sx sy sw) init ys) = width init \<and>
        height (foldl (subsectionStep imgData sx sy sw) init ys) = height init" for init ys
    by (induction ys arbitrary: init) (simp_all add: subsectionStep_def)
  then show ?thesis
    by (simp add: getImageDataSubsection_fold newImageData_def)
qed

lemma nth_grid:
  "x < n \<Longrightarrow> y < m \<Longrightarrow> concat (map (\<lambda>y. map (f y) [0 ..< n]) [0 ..< m]) ! (y * n + x) = f y x"
proof (induction m)
  case 0
  then show ?case by simp
next
  case (Suc m)
  have len: "length (concat (map (\<lambda>y. map (f y) [0 ..< n]) [0 ..< m])) = m * n"
    by (intro length_concat_rows) simp
  show ?case
  proof (cases "y = m")
    case True
    with Suc.prems len show ?thesis by (simp add: nth_append)
  next
    case False
    with Suc.prems have y: "y < m" by simp
    then have "Suc y * n \<le> m * n" by (intro mult_le_mono1) simp
    with Suc.prems(1) have "y * n + x < m * n" by simp
    with Suc.IH[OF Suc.prems(1) y] len show ?thesis by (simp add: nth_append)
  qed
qed

lemma length_grid: "length (concat (map (\<lambda>y. map (f y) [0 ..< n]) [0 ..< m])) = m * n"
  by (intro length_concat_rows) simp


lemma nth_splitIntoTiles:
  assumes "tx < ceilDiv (width imgData) tw" and "ty < ceilDiv (height imgData) th"
  shows "splitIntoTiles imgData tw th ! (ty * ceilDiv (width imgData) tw + tx) =
           \<lparr> tile_x = tx, tile_y = ty,
             tile_srcPosition = (tx * tw, ty * th, tw, th),
             tile_srcImgData = getImageDataSubsection imgData (tx * tw) (ty * th) tw th \<rparr>"
  unfolding splitIntoTiles_def Let_def using assms by (rule nth_grid)

lemma column_of_pixel:
  fixes tw tx px :: nat
  assumes "0 < tw"
  shows "(tx * tw \<le> px \<and> px < tx * tw + tw) \<longleftrightarrow> tx = px div tw"
proof
  assume "tx * tw \<le> px \<and> px < tx * tw + tw"
  then have "tw * tx \<le> px" and "px < tw * Suc tx"
    by (simp_all add: mult.commute)
  then have "px div tw = tx"
    by (rule div_nat_eqI)
  then show "tx = px div tw" by simp
next
  assume "tx = px div tw"
  then show "tx * tw \<le> px \<and> px < tx * tw + tw"
    using assms dividend_less_div_times[OF assms, of px] by (simp add: mult.commute)
qed

lemma column_exists:
  fixes tw px w :: nat
  assumes "0 < tw" and "px < w"
  shows "px div tw < ceilDiv w tw"
proof -
  have "px div tw \<le> (w - 1) div tw"
    using assms(2) by (intro div_le_mono) simp
  also have "\<dots> < (w - 1 + tw) div tw"
    using assms(1) by simp
  also have "w - 1 + tw = w + tw - 1"
    using assms(2) by simp
  finally show ?thesis by (simp add: ceilDiv_def)
qed

lemma column_inside:
  fixes tw tx w :: nat
  assumes "0 < tw" and "tw dvd w" and "tx < ceilDiv w tw"
  shows "tx * tw + tw \<le> w"
proof -
  from assms(2) obtain q where q: "w = tw * q" ..
  have "tw * q \<le> tw * q + tw - 1" and "tw * q + tw - 1 < tw * Suc q"
    using assms(1) by simp_all
  then have "(tw * q + tw - 1) div tw = q"
    by (rule div_nat_eqI)
  with assms(3) q have "Suc tx \<le> q"
    by (simp add: ceilDiv_def)
  then have "Suc tx * tw \<le> q * tw"
    by (rule mult_le_mono1)
  with q show ?thesis by (simp add: mult.commute)
qed

text \<open>
  Claim C4, as amended. For an image buffer of width \<open>W\<close> and height \<open>H\<close> and a positive
  tile size, \<open>splitIntoTiles\<close> produces \<open>ceil(W/tw) * ceil(H/th)\<close> tiles in row-major
  order; the tile of column \<open>tx\<close> and row \<open>ty\<close> has the source position
  \<open>(tx * tw, ty * th, tw, th)\<close>, always of the full tile size, and a buffer of that size;
  every pixel of the image lies in the source position of exactly one tile, the one of
  column \<open>px div tw\<close> and row \<open>py div th\<close>, which is a tile of the grid; the source
  positions stay inside the image where the tile size divides the image size; and a tile
  whose source position lies inside the image holds exactly the pixels of that position.
\<close>

theorem splitIntoTiles_grid:
  assumes tw: "0 < tw" and th: "0 < th"
    and wf: "length (data imgData) = width imgData * height imgData * RGBA_BYTES"
  shows "length (splitIntoTiles imgData tw th) = ceilDiv (width imgData) tw * ceilDiv (height imgData) th \<and>
    (\<forall>ty < ceilDiv (height imgData) th. \<forall>tx < ceilDiv (width imgData) tw.
       tile_x (splitIntoTiles imgData tw th ! (ty * ceilDiv (width imgData) tw + tx)) = tx \<and>
       tile_y (splitIntoTiles imgData tw th ! (ty * ceilDiv (width imgData) tw + tx)) = ty \<and>
       tile_srcPosition (splitIntoTiles imgData tw th ! (ty * ceilDiv (width imgData) tw + tx))
         = (tx * tw, ty * th, tw, th) \<and>
       width (tile_srcImgData (splitIntoTiles imgData tw th ! (ty * ceilDiv (width imgData) tw + tx))) = tw \<and>
       height (tile_srcImgData (splitIntoTiles imgData tw th ! (ty * ceilDiv (width imgData) tw + tx))) = th \<and>
       (tx * tw + tw \<le> width imgData \<and> ty * th + th \<le> height imgData \<longrightarrow>
          (\<forall>i < tw. \<forall>j < th.
             pixelAt (tile_srcImgData (splitIntoTiles imgData tw th ! (ty * ceilDiv (width imgData) tw + tx))) i j
               = pixelAt imgData (tx * tw + i) (ty * th + j))) \<and>
       (tw dvd width imgData \<longrightarrow> tx * tw + tw \<le> width imgData) \<and>
       (th dvd height imgData \<longrightarrow> ty * th + th \<le> height imgData) \<and>
       (\<forall>px py. inRegion (tile_srcPosition (splitIntoTiles imgData tw th ! (ty * ceilDiv (width imgData) tw + tx)))
                   px py \<longleftrightarrow> tx = px div tw \<and> ty = py div th)) \<and>
    (\<forall>px < width imgData. \<forall>py < height imgData.
       px div tw < ceilDiv (width imgData) tw \<and> py div th < ceilDiv (height imgData) th)"
proof (intro conjI allI impI)
  show "length (splitIntoTiles imgData tw th) = ceilDiv (width imgData) tw * ceilDiv (height imgData) th"
    by (simp add: length_splitIntoTiles mult.commute)
next
  fix px py
  assume "px < width imgData" and "py < height imgData"
  then show "px div tw < ceilDiv (width imgData) tw" and "py div th < ceilDiv (height imgData) th"
    using tw th by (simp_all add: column_exists)
next
  fix ty tx
  assume ty: "ty < ceilDiv (height imgData) th" and tx: "tx < ceilDiv (width imgData) tw"
  note n = nth_splitIntoTiles[OF tx ty]
  show "tile_x (splitIntoTiles imgData tw th ! (ty * ceilDiv (width imgData) tw + tx)) = tx"
    and "tile_y (splitIntoTiles imgData tw th ! (ty * ceilDiv (width imgData) tw + tx)) = ty"
    and "tile_srcPosition (splitIntoTiles imgData tw th ! (ty * ceilDiv (width imgData) tw + tx))
         = (tx * tw, ty * th, tw, th)"
    and "width (tile_srcImgData (splitIntoTiles imgData tw th ! (ty * ceilDiv (width imgData) tw + tx))) = tw"
    and "height (tile_srcImgData (splitIntoTiles imgData tw th ! (ty * ceilDiv (width imgData) tw + tx))) = th"
    by (simp_all add: n subsection_size)
  show "tx * tw + tw \<le> width imgData" if "tw dvd width imgData"
    using tw that tx by (rule column_inside)
  show "ty * th + th \<le> height imgData" if "th dvd height imgData"
    using th that ty by (rule column_inside)
  show "inRegion (tile_srcPosition (splitIntoTiles imgData tw th ! (ty * ceilDiv (width imgData) tw + tx)))
          px py \<longleftrightarrow> tx = px div tw \<and> ty = py div th" for px py
    using column_of_pixel[OF tw, of tx px] column_of_pixel[OF th, of ty py]
    by (simp add: n inRegion_def) blast
  show "pixelAt (tile_srcImgData (splitIntoTiles imgData tw th ! (ty * ceilDiv (width imgData) tw + tx))) i j
          = pixelAt imgData (tx * tw + i) (ty * th + j)"
    if "tx * tw + tw \<le> width imgData \<and> ty * th + th \<le> height imgData" and "i < tw" and "j < th" for i j
    using subsection_pixel[OF wf _ _ that(2) that(3), of "tx * tw" "ty * th"] that(1)
    by (simp add: n)
qed

theorem splitIntoTiles_grid_witness:
  "(0 :: nat) < 2 \<and>
   length (data img32) = width img32 * height img32 * RGBA_BYTES \<and>
   length (splitIntoTiles img32 2 2) = 2 \<and>
   tile_x (splitIntoTiles img32 2 2 ! 1) = 1 \<and>
   tile_y (splitIntoTiles img32 2 2 ! 1) = 0 \<and>
   tile_srcPosition (splitIntoTiles img32 2 2 ! 0) = (0, 0, 2, 2) \<and>
   pixelAt (tile_srcImgData (splitIntoTiles img32 2 2 ! 0)) 1 1 = pixelAt img32 1 1 \<and>
   inRegion (tile_srcPosition (splitIntoTiles img32 2 2 ! 1)) 2 1 \<and>
   \<not> inRegion (tile_srcPosition (splitIntoTiles img32 2 2 ! 0)) 2 1"
proof -
  have p: "(0 :: nat) < 2"
    by simp
  have w: "width img32 = 3" and h: "height img32 = 2" and l: "length (data img32) = 24"
    by (simp_all add: img32_def)
  have wf: "length (data img32) = width img32 * height img32 * RGBA_BYTES"
    by (simp add: w h l RGBA_BYTES_def)
  have c: "ceilDiv (width img32) 2 = 2" "ceilDiv (height img32) 2 = 1"
    by (simp_all add: ceilDiv_def w h)
  note g = splitIntoTiles_grid[OF p p wf]
  from g have len: "length (splitIntoTiles img32 2 2) = 2"
    by (simp add: c)
  have ty: "0 < ceilDiv (height img32) 2" and tx0: "0 < ceilDiv (width img32) 2"
    and tx1: "1 < ceilDiv (width img32) 2"
    by (simp_all add: c)
  have fits: "0 * 2 + 2 \<le> width img32 \<and> 0 * 2 + 2 \<le> height img32"
    by (simp add: w h)
  note g0 = g[THEN conjunct2, THEN conjunct1, rule_format, OF ty tx0]
  note g1 = g[THEN conjunct2, THEN conjunct1, rule_format, OF ty tx1]
  from g0 have t0: "tile_srcPosition (splitIntoTiles img32 2 2 ! 0) = (0, 0, 2, 2)"
    by simp
  from g0 fits have "\<forall>i < 2. \<forall>j < 2.
      pixelAt (tile_srcImgData (splitIntoTiles img32 2 2 ! 0)) i j = pixelAt img32 (0 * 2 + i) (0 * 2 + j)"
    by simp
  then have px: "pixelAt (tile_srcImgData (splitIntoTiles img32 2 2 ! 0)) 1 1 = pixelAt img32 1 1"
    by simp
  from g0 have "inRegion (tile_srcPosition (splitIntoTiles img32 2 2 ! (0 * ceilDiv (width img32) 2 + 0))) 2 1
      \<longleftrightarrow> (0 :: nat) = 2 div 2 \<and> (0 :: nat) = 1 div 2"
    by blast
  then have out: "\<not> inRegion (tile_srcPosition (splitIntoTiles img32 2 2 ! 0)) 2 1"
    by simp
  from g1 have t1: "tile_x (splitIntoTiles img32 2 2 ! 1) = 1" "tile_y (splitIntoTiles img32 2 2 ! 1) = 0"
    by (simp_all add: c)
  from g1 have "inRegion (tile_srcPosition (splitIntoTiles img32 2 2 ! (0 * ceilDiv (width img32) 2 + 1))) 2 1
      \<longleftrightarrow> (1 :: nat) = 2 div 2 \<and> (0 :: nat) = 1 div 2"
    by blast
  then have inside: "inRegion (tile_srcPosition (splitIntoTiles img32 2 2 ! 1)) 2 1"
    by (simp add: c)
  show ?thesis
    using p wf len t0 px out t1 inside by blast
qed

text \<open>
  A partial edge tile: with tiles of 2 by 2 on the image of 3 by 2, the source position
  of the second tile reaches column 3, outside the image; its second pixel of the
  first row is the first pixel of the image's second row, and its last pixel is zero.
\<close>

lemma img32_tiles:
  "splitIntoTiles img32 2 2 =
     [\<lparr> tile_x = 0, tile_y = 0, tile_srcPosition = (0, 0, 2, 2),
        tile_srcImgData = \<lparr> width = 2, height = 2,
          data = [1, 1, 1, 255, 2, 2, 2, 255, 4, 4, 4, 255, 5, 5, 5, 255] \<rparr> \<rparr>,
      \<lparr> tile_x = 1, tile_y = 0, tile_srcPosition = (2, 0, 2, 2),
        tile_srcImgData = \<lparr> width = 2, height = 2,
          data = [3, 3, 3, 255, 4, 4, 4, 255, 6, 6, 6, 255, 0, 0, 0, 0] \<rparr> \<rparr>]"
  by code_simp

theorem splitIntoTiles_edge_counterexample:
  "width img32 = 3 \<and> height img32 = 2 \<and>
   length (splitIntoTiles img32 2 2) = 2 \<and>
   tile_srcPosition (splitIntoTiles img32 2 2 ! 1) = (2, 0, 2, 2) \<and>
   inRegion (tile_srcPosition (splitIntoTiles img32 2 2 ! 1)) 3 0 \<and>
   \<not> 3 < width img32 \<and>
   pixelAt (tile_srcImgData (splitIntoTiles img32 2 2 ! 1)) 1 0 = [4, 4, 4, 255] \<and>
   pixelAt img32 0 1 = [4, 4, 4, 255] \<and>
   pixelAt (tile_srcImgData (splitIntoTiles img32 2 2 ! 1)) 1 1 = [0, 0, 0, 0]"
  unfolding img32_tiles
  by (simp add: img32_def inRegion_def pixelAt_def arraySlice_def rgbaOffset_def RGBA_BYTES_def)



end
